theory Spec2Isabelle
  imports Main "HOL-Library.AList"
begin

section \<open>Values read from and written to JSON documents\<close>

text \<open>
  The three source files (\<^verbatim>\<open>D-Scheduler_Code/d-scheduler.py\<close>, \<^verbatim>\<open>D-Scheduler/d-scheduler.py\<close>
  and the earliest one) are successive iterations of one program. A definition embeds
  \<^verbatim>\<open>D-Scheduler_Code/d-scheduler.py\<close>, the latest, unless its text names another file; where
  both files have a function of a name, the one of \<^verbatim>\<open>D-Scheduler/d-scheduler.py\<close> ends in
  \<open>_old\<close>.

  What \<^verbatim>\<open>json.load\<close> returns. A Python \<^verbatim>\<open>dict\<close> is an association list in insertion order;
  \<open>AList.update\<close> is the assignment \<^verbatim>\<open>d[k] = v\<close> (an existing key keeps its position, a new
  key goes to the end) and \<open>AList.delete\<close> is \<^verbatim>\<open>del d[k]\<close>. Strings are lists of code points
  below 256. Numbers are the integers; floating point numbers are outside the model.

  A string of Python can hold any code point. Two things that depend on the code points from
  256 on are therefore not in this model; nothing below is stated of them. One is the lone
  surrogate (the JSON escape \<^verbatim>\<open>\ud800\<close>): \<^verbatim>\<open>json.load\<close> accepts it, and
  \<^verbatim>\<open>json.dump(..., ensure_ascii=False)\<close> into a file opened as UTF-8 raises
  \<^verbatim>\<open>UnicodeEncodeError\<close> on it. The other are the decimal digits and the white space beyond
  ASCII and Latin-1, which \<^verbatim>\<open>\d\<close> and \<^verbatim>\<open>str.strip\<close> match as well.
\<close>

datatype json =
    JNull
  | JBool bool
  | JInt int
  | JStr string
  | JArr "json list"
  | JObj "(string \<times> json) list"

text \<open>\<^verbatim>\<open>d.get(k)\<close> and \<^verbatim>\<open>d.get(k, default)\<close>.\<close>

definition dict_get :: "(string \<times> json) list \<Rightarrow> string \<Rightarrow> json" where
  "dict_get d k = (case map_of d k of None \<Rightarrow> JNull | Some v \<Rightarrow> v)"

definition dict_get_default :: "(string \<times> json) list \<Rightarrow> string \<Rightarrow> json \<Rightarrow> json" where
  "dict_get_default d k dflt = (case map_of d k of None \<Rightarrow> dflt | Some v \<Rightarrow> v)"

text \<open>Truth value of a Python object, and \<^verbatim>\<open>x or y\<close>.\<close>

fun truthy :: "json \<Rightarrow> bool" where
  "truthy JNull = False"
| "truthy (JBool b) = b"
| "truthy (JInt n) = (n \<noteq> 0)"
| "truthy (JStr s) = (s \<noteq> [])"
| "truthy (JArr xs) = (xs \<noteq> [])"
| "truthy (JObj d) = (d \<noteq> [])"

definition py_or :: "json \<Rightarrow> json \<Rightarrow> json" where
  "py_or x y = (if truthy x then x else y)"

text \<open>
  What the run takes from outside the source: the text \<^verbatim>\<open>str\<close> makes of a value that is not
  a string, what \<^verbatim>\<open>int\<close> makes of a string (\<open>None\<close> where it raises), and the
  identifiers \<^verbatim>\<open>uuid.uuid4()\<close> draws, numbered in the order of the draws.
\<close>

record pyenv =
  repr_of :: "json \<Rightarrow> string"
  int_of_str :: "string \<Rightarrow> int option"
  uuid4_str :: "nat \<Rightarrow> string"
  uuid4_hex4 :: "nat \<Rightarrow> string"

definition py_str :: "pyenv \<Rightarrow> json \<Rightarrow> string" where
  "py_str E v = (case v of JStr s \<Rightarrow> s | _ \<Rightarrow> repr_of E v)"

text \<open>\<^verbatim>\<open>int(v)\<close>: \<open>None\<close> stands for the \<^verbatim>\<open>TypeError\<close> or \<^verbatim>\<open>ValueError\<close> it raises.\<close>

definition py_int :: "pyenv \<Rightarrow> json \<Rightarrow> int option" where
  "py_int E v =
     (case v of
        JInt n \<Rightarrow> Some n
      | JBool b \<Rightarrow> Some (if b then 1 else 0)
      | JStr s \<Rightarrow> int_of_str E s
      | _ \<Rightarrow> None)"

text \<open>\<^verbatim>\<open>isinstance(v, int)\<close> holds of integers and of booleans; the value is the integer.\<close>

definition as_int :: "json \<Rightarrow> int option" where
  "as_int v = (case v of JInt n \<Rightarrow> Some n | JBool b \<Rightarrow> Some (if b then 1 else 0) | _ \<Rightarrow> None)"

text \<open>\<^verbatim>\<open>str.strip()\<close>: the white space among the code points below 256.\<close>

definition py_isspace :: "char \<Rightarrow> bool" where
  "py_isspace c = ((of_char c :: nat) \<in> set [9, 10, 11, 12, 13, 28, 29, 30, 31, 32, 133, 160])"

definition strip :: "string \<Rightarrow> string" where
  "strip s = rev (dropWhile py_isspace (rev (dropWhile py_isspace s)))"

text \<open>\<^verbatim>\<open>re.fullmatch(r"\d{4}-\d{2}-\d{2}", k)\<close>.\<close>

definition is_digit :: "char \<Rightarrow> bool" where
  "is_digit c = (c \<in> set ''0123456789'')"

definition fullmatch_date :: "string \<Rightarrow> bool" where
  "fullmatch_date k =
     (length k = 10 \<and> list_all is_digit (take 4 k) \<and> k ! 4 = CHR ''-'' \<and>
      list_all is_digit (take 2 (drop 5 k)) \<and> k ! 7 = CHR ''-'' \<and>
      list_all is_digit (drop 8 k))"

section \<open>Calendar dates\<close>

text \<open>
  A \<^verbatim>\<open>datetime.date\<close> is its proleptic Gregorian ordinal (day 1 is 0001-01-01, the last
  day 9999-12-31 is 3652059); \<^verbatim>\<open>timedelta(days=n)\<close> is \<open>n\<close>. Errors are values.
\<close>

datatype exn =
    ValueError | OverflowError | AttributeError | IndexError | TypeError | OSError | JSONDecodeError

type_synonym date = int

definition MAXORD :: int where
  "MAXORD = 3652059"

definition is_leap :: "int \<Rightarrow> bool" where
  "is_leap y = (y mod 4 = 0 \<and> (0 < y mod 100 \<or> y mod 400 = 0))"

definition days_before_year :: "int \<Rightarrow> int" where
  "days_before_year y = (y - 1) * 365 + (y - 1) div 4 - (y - 1) div 100 + (y - 1) div 400"

text \<open>Days in a month and before a month, for a leap year or a common year.\<close>

definition month_length :: "bool \<Rightarrow> int \<Rightarrow> int" where
  "month_length leap m =
     (if m = 2 then (if leap then 29 else 28)
      else if m = 4 \<or> m = 6 \<or> m = 9 \<or> m = 11 then 30 else 31)"

definition month_offset :: "bool \<Rightarrow> int \<Rightarrow> int" where
  "month_offset leap m = sum_list (map (month_length leap) [1 .. m - 1])"

definition days_in_month :: "int \<Rightarrow> int \<Rightarrow> int" where
  "days_in_month y m = month_length (is_leap y) m"

definition days_before_month :: "int \<Rightarrow> int \<Rightarrow> int" where
  "days_before_month y m = month_offset (is_leap y) m"

definition ymd2ord :: "int \<Rightarrow> int \<Rightarrow> int \<Rightarrow> int" where
  "ymd2ord y m d = days_before_year y + days_before_month y m + d"

text \<open>\<^verbatim>\<open>date(y, m, d)\<close>.\<close>

definition date_new :: "int \<Rightarrow> int \<Rightarrow> int \<Rightarrow> exn + date" where
  "date_new y m d =
     (if 1 \<le> y \<and> y \<le> 9999 \<and> 1 \<le> m \<and> m \<le> 12 \<and> 1 \<le> d \<and> d \<le> days_in_month y m
      then Inr (ymd2ord y m d) else Inl ValueError)"

text \<open>\<^verbatim>\<open>dt + timedelta(days=n)\<close>.\<close>

definition date_add :: "date \<Rightarrow> int \<Rightarrow> exn + date" where
  "date_add dt n = (if 1 \<le> dt + n \<and> dt + n \<le> MAXORD then Inr (dt + n) else Inl OverflowError)"

text \<open>The year, month and day of an ordinal, as \<^verbatim>\<open>datetime\<close> computes them.\<close>

definition ord2ymd :: "int \<Rightarrow> int \<times> int \<times> int" where
  "ord2ymd n0 =
     (let n = n0 - 1;
          n400 = n div 146097; n = n mod 146097;
          n100 = n div 36524; n = n mod 36524;
          n4 = n div 1461; n = n mod 1461;
          n1 = n div 365; n = n mod 365;
          year = n400 * 400 + 1 + n100 * 100 + n4 * 4 + n1
      in if n1 = 4 \<or> n100 = 4 then (year - 1, 12, 31)
         else
           (let leapyear = (n1 = 3 \<and> (n4 < 24 \<or> n100 = 3));
                month = (n + 50) div 32;
                preceding = month_offset leapyear month;
                (month, preceding) =
                   (if preceding > n
                    then (month - 1, preceding - month_length leapyear (month - 1))
                    else (month, preceding))
            in (year, month, n - preceding + 1)))"

text \<open>
  \<^verbatim>\<open>dt.strftime("%Y-%m-%d")\<close>. For a year of four digits this is what every platform gives.
  For a year below 1000 the C library decides whether \<^verbatim>\<open>%Y\<close> pads the year with zeros
  (glibc does not): the padded form stands here, and no statement below depends on the date
  key of such a year.
\<close>

definition digit_char :: "int \<Rightarrow> char" where
  "digit_char n = ''0123456789'' ! nat (n mod 10)"

definition pad2 :: "int \<Rightarrow> string" where
  "pad2 n = [digit_char (n div 10), digit_char n]"

definition date_key :: "date \<Rightarrow> string" where
  "date_key dt =
     (case ord2ymd dt of
        (y, m, d) \<Rightarrow> pad2 (y div 100) @ pad2 y @ ''-'' @ pad2 m @ ''-'' @ pad2 d)"

section \<open>The application state and the file system\<close>

text \<open>
  A column definition, a table row as \<^verbatim>\<open>_build_row\<close> fills it (its date and, per column, the
  text of its editor; the date label and the colours are not modelled), and the fields of
  \<^verbatim>\<open>CalendarApp\<close> the operations below read or write. \<open>signals_blocked\<close> is the state
  \<^verbatim>\<open>blockSignals\<close> sets on the vertical scroll bar; \<open>warnings\<close> counts the
  \<^verbatim>\<open>QMessageBox.warning\<close> dialogs shown.
\<close>

record column =
  col_id :: string
  title :: string
  width :: int

record row =
  row_date :: date
  row_texts :: "(string \<times> string) list"

record app =
  columns :: "column list"
  cells :: "(string \<times> (string \<times> string) list) list"
  range_start :: date
  range_end :: date
  current_anchor_date :: date
  dirty :: bool
  autosave_path :: string
  expand_each :: int
  rows :: "row option list"
  signals_blocked :: bool
  is_building :: bool
  is_extending :: bool
  sb_prev_block :: bool
  last_user_scroll_ms :: "int option"
  user_scroll_expire_ms :: "int option"
  warnings :: nat

text \<open>
  A file holds either the complete text of a JSON document or anything else (\<open>Partial\<close>: an
  empty or half-written file, on which \<^verbatim>\<open>json.load\<close> raises). A path is its string.
\<close>

datatype content = Complete json | Partial

type_synonym fs = "string \<Rightarrow> content option"

section \<open>The persisted document\<close>

definition json_of_columns :: "column list \<Rightarrow> json" where
  "json_of_columns cs =
     JArr (map (\<lambda>c. JObj [(''id'', JStr (col_id c)), (''title'', JStr (title c)),
                            (''width'', JInt (width c))]) cs)"

definition json_of_entry :: "(string \<times> string) list \<Rightarrow> json" where
  "json_of_entry entry = JObj (map (\<lambda>(cid, txt). (cid, JStr txt)) entry)"

definition json_of_cells :: "(string \<times> (string \<times> string) list) list \<Rightarrow> json" where
  "json_of_cells cs = JObj (map (\<lambda>(k, entry). (k, json_of_entry entry)) cs)"

text \<open>The object \<^verbatim>\<open>_write_json\<close> dumps.\<close>

definition document :: "app \<Rightarrow> json" where
  "document self =
     JObj [(''columns'', json_of_columns (columns self)), (''cells'', json_of_cells (cells self))]"

section \<open>Loading a document\<close>

text \<open>
  The loop over \<^verbatim>\<open>cols_raw\<close> of \<^verbatim>\<open>_load_json_path\<close>: \<open>n\<close> counts the uuid draws so far,
  \<open>seen\<close> and \<open>cols\<close> are the loop's variables.
\<close>

fun load_columns :: "pyenv \<Rightarrow> json list \<Rightarrow> nat \<Rightarrow> string list \<Rightarrow> column list \<Rightarrow> column list" where
  "load_columns E [] n seen cols = cols"
| "load_columns E (c # rest) n seen cols =
     (case c of
        JObj d \<Rightarrow>
          (let stripped = strip (py_str E (py_or (dict_get d ''id'') (JStr [])));
               cid0 = (if stripped \<noteq> [] then stripped else uuid4_str E n);
               n1 = (if stripped \<noteq> [] then n else Suc n);
               cid = (if cid0 \<in> set seen then cid0 @ ''-'' @ uuid4_hex4 E n1 else cid0);
               n2 = (if cid0 \<in> set seen then Suc n1 else n1);
               ttl = py_str E (py_or (dict_get d ''title'') (JStr cid));
               w = (case py_int E (dict_get_default d ''width'' (JInt 240)) of
                      None \<Rightarrow> 240 | Some w \<Rightarrow> w);
               w = max 80 (min w 1200)
           in load_columns E rest n2 (cid # seen)
                (cols @ [\<lparr>col_id = cid, title = ttl, width = w\<rparr>]))
      | _ \<Rightarrow> load_columns E rest n seen cols)"

text \<open>One cell value: \<^verbatim>\<open>"" if txt is None else str(txt)\<close>.\<close>

definition cell_text :: "pyenv \<Rightarrow> json \<Rightarrow> string" where
  "cell_text E txt = (case txt of JNull \<Rightarrow> [] | _ \<Rightarrow> py_str E txt)"

text \<open>
  The inner loop over \<^verbatim>\<open>v.items()\<close> and the outer loop over \<^verbatim>\<open>cells_raw.items()\<close>. The keys
  of a parsed JSON object are strings, so the two \<^verbatim>\<open>isinstance(_, str)\<close> tests hold.
\<close>

fun load_entry :: "pyenv \<Rightarrow> (string \<times> json) list \<Rightarrow> (string \<times> string) list \<Rightarrow> (string \<times> string) list" where
  "load_entry E [] entry = entry"
| "load_entry E ((cid, txt) # rest) entry =
     load_entry E rest (AList.update cid (cell_text E txt) entry)"

fun load_cells :: "pyenv \<Rightarrow> (string \<times> json) list \<Rightarrow> (string \<times> (string \<times> string) list) list
    \<Rightarrow> (string \<times> (string \<times> string) list) list" where
  "load_cells E [] cs = cs"
| "load_cells E ((k, v) # rest) cs =
     (if \<not> fullmatch_date k then load_cells E rest cs
      else case v of
             JObj items \<Rightarrow> load_cells E rest (AList.update k (load_entry E items []) cs)
           | _ \<Rightarrow> load_cells E rest cs)"

text \<open>
  The \<^verbatim>\<open>except Exception\<close> branch of \<^verbatim>\<open>_load_json_path\<close>: the warning unless \<open>silent\<close>, and
  \<open>False\<close>, on the state as the exception found it.
\<close>

definition load_failed :: "bool \<Rightarrow> app \<Rightarrow> bool \<times> app" where
  "load_failed silent self =
     (False, if silent then self else self\<lparr>warnings := Suc (warnings self)\<rparr>)"

text \<open>
  The year and month part of \<^verbatim>\<open>_load_json_path\<close>, after the two assignments. The two files
  have the same statements here (lines 890 to 903 of \<^verbatim>\<open>D-Scheduler_Code/d-scheduler.py\<close>, lines
  667 to 679 of \<^verbatim>\<open>D-Scheduler/d-scheduler.py\<close>).
\<close>

definition load_year_month :: "bool \<Rightarrow> (string \<times> json) list \<Rightarrow> app \<Rightarrow> bool \<times> app" where
  "load_year_month silent d self =
     (case (as_int (dict_get d ''year''), as_int (dict_get d ''month'')) of
        (Some y, Some m) \<Rightarrow>
          (if 1 \<le> m \<and> m \<le> 12 then
             (case date_new y m 1 of
                Inl e \<Rightarrow> load_failed silent self
              | Inr ms \<Rightarrow>
                  (let self = self\<lparr>range_start := ms\<rparr> in
                   case date_add ms 61 of
                     Inl e \<Rightarrow> load_failed silent self
                   | Inr en \<Rightarrow> (True, self\<lparr>range_end := en, dirty := False\<rparr>)))
           else (True, self\<lparr>dirty := False\<rparr>))
      | _ \<Rightarrow> (True, self\<lparr>dirty := False\<rparr>))"

text \<open>
  The two validation blocks of \<^verbatim>\<open>_load_json_path\<close>: \<^verbatim>\<open>cols\<close> and \<^verbatim>\<open>cells\<close> as they stand
  before the assignments, from the parsed object \<open>d\<close>.
\<close>

definition validated_columns :: "pyenv \<Rightarrow> app \<Rightarrow> (string \<times> json) list \<Rightarrow> column list" where
  "validated_columns E self d =
     (case dict_get_default d ''columns'' (json_of_columns (columns self)) of
        JArr cs \<Rightarrow> load_columns E cs 0 [] []
      | _ \<Rightarrow> [])"

definition validated_cells :: "pyenv \<Rightarrow> app \<Rightarrow> (string \<times> json) list
    \<Rightarrow> (string \<times> (string \<times> string) list) list" where
  "validated_cells E self d =
     (case dict_get_default d ''cells'' (json_of_cells (cells self)) of
        JObj kvs \<Rightarrow> load_cells E kvs []
      | _ \<Rightarrow> [])"

text \<open>
  \<^verbatim>\<open>_load_json_path\<close>: a missing file, a text that is no JSON document, a document that is
  no object (\<^verbatim>\<open>obj.get\<close> raises) and an empty \<^verbatim>\<open>cols\<close> raise before the two assignments.
\<close>

definition load_json_path :: "pyenv \<Rightarrow> fs \<Rightarrow> string \<Rightarrow> bool \<Rightarrow> app \<Rightarrow> bool \<times> app" where
  "load_json_path E files path silent self =
     (case files path of
        None \<Rightarrow> load_failed silent self
      | Some Partial \<Rightarrow> load_failed silent self
      | Some (Complete obj) \<Rightarrow>
          (case obj of
             JObj d \<Rightarrow>
               if validated_columns E self d = [] then load_failed silent self
               else load_year_month silent d
                      (self\<lparr>columns := validated_columns E self d,
                            cells := validated_cells E self d\<rparr>)
           | _ \<Rightarrow> load_failed silent self))"

section \<open>Writing a document\<close>

text \<open>
  A write can fail where the operating system can refuse it: a \<open>fault\<close> names the step that
  raises in a given call (a step the call does not take cannot fail). The dump raises as well
  when a string of the document cannot be encoded, which is the case of a lone surrogate; of
  the strings of this model none is such, so that this failure too is the fault \<open>DumpFails\<close>
  here.
\<close>

datatype fault = NoFault | MkdirFails | OpenFails | DumpFails | ReplaceFails

text \<open>
  A path is the string \<^verbatim>\<open>str\<close> gives of it, as \<^verbatim>\<open>pathlib\<close> writes it on POSIX (the
  empty string stands, as \<^verbatim>\<open>Path("")\<close> does, for the current directory). \<^verbatim>\<open>path.name\<close> is its
  last component, which is empty for the current directory \<^verbatim>\<open>.\<close> and for the roots
  \<^verbatim>\<open>/\<close> and \<^verbatim>\<open>//\<close>.
\<close>

definition path_name :: "string \<Rightarrow> string" where
  "path_name path =
     (if path = ''.'' then [] else rev (takeWhile (\<lambda>c. c \<noteq> CHR ''/'') (rev path)))"

text \<open>
  \<^verbatim>\<open>_write_json\<close> step by step: the file system before the call and after each step that
  changes it. \<^verbatim>\<open>path.with_suffix(path.suffix + ".tmp")\<close> appends \<^verbatim>\<open>.tmp\<close> to the name and
  raises \<^verbatim>\<open>ValueError\<close> on an empty name; opening for writing leaves an empty file, which is
  complete once the dump has ended; \<^verbatim>\<open>tmp.replace(path)\<close> is one step.
\<close>

definition write_json_steps :: "app \<Rightarrow> string \<Rightarrow> fault \<Rightarrow> fs \<Rightarrow> fs list" where
  "write_json_steps self path fault files =
     (if fault = MkdirFails \<or> path_name path = [] \<or> fault = OpenFails then [files]
      else
        (let tmp = path @ ''.tmp'';
             opened = files(tmp \<mapsto> Partial)
         in if fault = DumpFails then [files, opened]
            else
              (let dumped = files(tmp \<mapsto> Complete (document self))
               in if fault = ReplaceFails then [files, opened, dumped]
                  else [files, opened, dumped,
                        (dumped(tmp := None))(path \<mapsto> Complete (document self))])))"

text \<open>Whether a step of \<^verbatim>\<open>_write_json\<close> raised inside its \<^verbatim>\<open>try\<close>.\<close>

definition write_json_raised :: "string \<Rightarrow> fault \<Rightarrow> bool" where
  "write_json_raised path fault = (if fault = NoFault then path_name path = [] else True)"

text \<open>
  \<^verbatim>\<open>_write_json\<close>: every exception is caught inside and answered by a warning dialog, so
  none reaches the caller (the third component is the exception that escapes).
\<close>

definition write_json :: "string \<Rightarrow> fault \<Rightarrow> app \<times> fs \<Rightarrow> (app \<times> fs) \<times> exn option" where
  "write_json path fault st =
     (case st of (self, files) \<Rightarrow>
        ((if write_json_raised path fault then self\<lparr>warnings := Suc (warnings self)\<rparr> else self,
          last (write_json_steps self path fault files)),
         None))"

text \<open>
  \<^verbatim>\<open>_autosave_tick\<close>. \<^verbatim>\<open>self.autosave_path\<close> is a \<^verbatim>\<open>Path\<close>, which is always true.
\<close>

definition autosave_tick :: "fault \<Rightarrow> app \<times> fs \<Rightarrow> app \<times> fs" where
  "autosave_tick fault st =
     (case st of (self, files) \<Rightarrow>
        if dirty self then
          (case write_json (autosave_path self) fault (self, files) of
             ((self, files), None) \<Rightarrow> (self\<lparr>dirty := False\<rparr>, files)
           | ((self, files), Some e) \<Rightarrow> (self, files))
        else (self, files))"

subsection \<open>The earlier variant\<close>

text \<open>
  The object \<^verbatim>\<open>_write_json\<close> of \<^verbatim>\<open>D-Scheduler/d-scheduler.py\<close> dumps; \<open>now\<close> is
  \<^verbatim>\<open>datetime.now().isoformat()\<close>.
\<close>

definition document_old :: "string \<Rightarrow> app \<Rightarrow> json" where
  "document_old now self =
     (case ord2ymd (range_start self) of
        (y, m, d) \<Rightarrow>
          JObj [(''year'', JInt y), (''month'', JInt m),
                (''columns'', json_of_columns (columns self)),
                (''cells'', json_of_cells (cells self)),
                (''savedAt'', JStr now)])"

text \<open>It opens the destination itself for writing and dumps into it.\<close>

definition write_json_old_steps :: "string \<Rightarrow> app \<Rightarrow> string \<Rightarrow> fault \<Rightarrow> fs \<Rightarrow> fs list" where
  "write_json_old_steps now self path fault files =
     (if fault = OpenFails then [files]
      else
        (let opened = files(path \<mapsto> Partial)
         in if fault = DumpFails then [files, opened]
            else [files, opened, files(path \<mapsto> Complete (document_old now self))]))"

text \<open>Nothing is caught: the exception of a failing step reaches the caller.\<close>

definition write_json_old :: "string \<Rightarrow> string \<Rightarrow> fault \<Rightarrow> app \<times> fs \<Rightarrow> (app \<times> fs) \<times> exn option" where
  "write_json_old now path fault st =
     (case st of (self, files) \<Rightarrow>
        ((self, last (write_json_old_steps now self path fault files)),
         if fault = OpenFails \<or> fault = DumpFails then Some OSError else None))"

definition autosave_tick_old :: "string \<Rightarrow> fault \<Rightarrow> app \<times> fs \<Rightarrow> app \<times> fs" where
  "autosave_tick_old now fault st =
     (case st of (self, files) \<Rightarrow>
        if dirty self then
          (case write_json_old now (autosave_path self) fault (self, files) of
             ((self, files), None) \<Rightarrow> (self\<lparr>dirty := False\<rparr>, files)
           | ((self, files), Some e) \<Rightarrow> (self, files))
        else (self, files))"

section \<open>The view window\<close>

text \<open>
  \<^verbatim>\<open>_build_row\<close>: the editor of a column shows the stored text when the Day Record of the
  date has an entry for the column, and is empty otherwise.
\<close>

definition build_row :: "app \<Rightarrow> date \<Rightarrow> row" where
  "build_row self dt =
     \<lparr>row_date = dt,
      row_texts =
        map (\<lambda>c. (col_id c,
                   case map_of (cells self) (date_key dt) of
                     None \<Rightarrow> []
                   | Some entry \<Rightarrow> (case map_of entry (col_id c) of None \<Rightarrow> [] | Some t \<Rightarrow> t)))
            (columns self)\<rparr>"

text \<open>
  The table: a row is blank (\<open>None\<close>) until \<^verbatim>\<open>_build_row\<close> has filled it.
  \<^verbatim>\<open>setRowCount(k)\<close> cuts the table or adds blank rows, and does nothing for a negative
  \<open>k\<close>; \<^verbatim>\<open>clear()\<close> blanks every row and keeps their number.
\<close>

definition set_row_count :: "int \<Rightarrow> row option list \<Rightarrow> row option list" where
  "set_row_count k rs =
     (if k < 0 then rs
      else if nat k \<le> length rs then take (nat k) rs
      else rs @ replicate (nat k - length rs) None)"

definition clear_table :: "row option list \<Rightarrow> row option list" where
  "clear_table rs = map (\<lambda>_. None) rs"

text \<open>
  The loop \<^verbatim>\<open>for r in range(k): self._build_row(r, cur); cur += timedelta(days=1)\<close>, from
  row \<open>r\<close> on: the table it leaves, and the exception of the addition that leaves the
  calendar.
\<close>

fun fill_rows :: "app \<Rightarrow> row option list \<Rightarrow> nat \<Rightarrow> date \<Rightarrow> nat \<Rightarrow> row option list \<times> exn option" where
  "fill_rows self rs r cur 0 = (rs, None)"
| "fill_rows self rs r cur (Suc k) =
     (case date_add cur 1 of
        Inl e \<Rightarrow> (rs[r := Some (build_row self cur)], Some e)
      | Inr nxt \<Rightarrow> fill_rows self (rs[r := Some (build_row self cur)]) (Suc r) nxt k)"

text \<open>
  What Qt decides and the handler of \<^verbatim>\<open>valueChanged\<close> reads: when a call of
  \<^verbatim>\<open>scrollToItem\<close> moves the scroll bar, the clock, the bar's value, minimum and maximum,
  whether its slider is held down, and the row then at the top of the viewport
  (\<^verbatim>\<open>rowAt(0)\<close>). An operation takes the list of these readings for the calls of
  \<^verbatim>\<open>scrollToItem\<close> it leads to, in their order: \<open>None\<close>, or no element left, is a call that does
  not move the bar. Qt delivers \<^verbatim>\<open>valueChanged\<close> when the bar moves and its signals are not
  blocked; no other call of the table is taken to move it.
\<close>

record scroll_event =
  ev_now :: int
  ev_value :: int
  ev_minimum :: int
  ev_maximum :: int
  ev_slider_down :: bool
  ev_top_row :: int

text \<open>\<^verbatim>\<open>_begin_table_update\<close> and \<^verbatim>\<open>_end_table_update\<close>.\<close>

definition begin_table_update :: "app \<Rightarrow> app" where
  "begin_table_update self =
     self\<lparr>is_building := True, sb_prev_block := signals_blocked self, signals_blocked := True\<rparr>"

definition end_table_update :: "app \<Rightarrow> app" where
  "end_table_update self = self\<lparr>signals_blocked := sb_prev_block self, is_building := False\<rparr>"

text \<open>
  \<^verbatim>\<open>_on_scroll_action\<close>: \<open>rate\<close> is \<^verbatim>\<open>int(QGuiApplication.primaryScreen().refreshRate() or 60)\<close>
  and \<open>now\<close> the clock.
\<close>

definition on_scroll_action :: "int \<Rightarrow> int \<Rightarrow> app \<Rightarrow> app" where
  "on_scroll_action rate now self =
     self\<lparr>user_scroll_expire_ms := Some (rate * 4), last_user_scroll_ms := Some now\<rparr>"

text \<open>The gate of \<^verbatim>\<open>_on_scroll_extend_if_needed\<close>: \<^verbatim>\<open>ok_user or ok_drag\<close>.\<close>

definition user_driven :: "scroll_event \<Rightarrow> app \<Rightarrow> bool" where
  "user_driven ev self =
     ((case (last_user_scroll_ms self, user_scroll_expire_ms self) of
         (Some l, Some x) \<Rightarrow> ev_now ev - l \<le> max 80 x
       | _ \<Rightarrow> False)
      \<or> ev_slider_down ev)"

text \<open>\<^verbatim>\<open>self.table.item(idx, 0)\<close> is an item.\<close>

definition item_exists :: "row option list \<Rightarrow> nat \<Rightarrow> bool" where
  "item_exists rs idx = (idx < length rs \<and> rs ! idx \<noteq> None)"

text \<open>
  \<^verbatim>\<open>scroll_to_date\<close>, \<^verbatim>\<open>_on_scroll_extend_if_needed\<close>, \<^verbatim>\<open>_append_days_auto\<close>,
  \<^verbatim>\<open>_prepend_days_auto\<close> and \<^verbatim>\<open>rebuild_range\<close> call one another. Each returns the state it
  leaves and the exception that escapes it, if any. \<open>top_row\<close> is what \<^verbatim>\<open>rowAt(0)\<close> returns.
\<close>

function scroll_to_date :: "scroll_event option list \<Rightarrow> date \<Rightarrow> app \<Rightarrow> app \<times> exn option"
  and on_scroll_extend_if_needed :: "scroll_event \<Rightarrow> scroll_event option list \<Rightarrow> app \<Rightarrow> app \<times> exn option"
  and append_days_auto :: "int \<Rightarrow> scroll_event option list \<Rightarrow> int \<Rightarrow> app \<Rightarrow> app \<times> exn option"
  and prepend_days_auto :: "int \<Rightarrow> scroll_event option list \<Rightarrow> int \<Rightarrow> app \<Rightarrow> app \<times> exn option"
  and rebuild_range :: "int \<Rightarrow> scroll_event option list \<Rightarrow> date \<Rightarrow> date \<Rightarrow> bool \<Rightarrow> app \<Rightarrow> app \<times> exn option"
where
  "scroll_to_date evs dt self =
     (if dt < range_start self \<or> dt > range_end self then (self, None)
      else if \<not> item_exists (rows self) (nat (dt - range_start self)) then (self, None)
      else case evs of
             Some ev # evs' \<Rightarrow>
               if signals_blocked self then (self, None)
               else on_scroll_extend_if_needed ev evs' self
           | _ \<Rightarrow> (self, None))"
| "on_scroll_extend_if_needed ev evs self =
     (if \<not> user_driven ev self then (self, None)
      else if ev_maximum ev - ev_minimum ev \<le> 0 then (self, None)
      else if ev_value ev \<ge> ev_maximum ev - max 8 ((ev_maximum ev - ev_minimum ev) div 20)
      then append_days_auto (ev_top_row ev) evs (expand_each self) self
      else if ev_value ev \<le> ev_minimum ev + max 8 ((ev_maximum ev - ev_minimum ev) div 20)
      then prepend_days_auto (ev_top_row ev) evs (expand_each self) self
      else (self, None))"
| "append_days_auto top_row evs n self =
     (case date_add (range_end self) n of
        Inl e \<Rightarrow> (self, Some e)
      | Inr en \<Rightarrow>
          (case rebuild_range top_row evs (range_start self) en True (self\<lparr>signals_blocked := True\<rparr>) of
             (self', err) \<Rightarrow> (self'\<lparr>signals_blocked := signals_blocked self\<rparr>, err)))"
| "prepend_days_auto top_row evs n self =
     (case date_add (range_start self) (- n) of
        Inl e \<Rightarrow> (self, Some e)
      | Inr start \<Rightarrow>
          (case rebuild_range top_row evs start (range_end self) True (self\<lparr>signals_blocked := True\<rparr>) of
             (self', err) \<Rightarrow> (self'\<lparr>signals_blocked := signals_blocked self\<rparr>, err)))"
| "rebuild_range top_row evs start en keep_scroll self =
     (case (if keep_scroll \<and> rows self \<noteq> []
            then map_sum id Some (date_add (range_start self) (max 0 top_row)) else Inr None) of
        Inl e \<Rightarrow> (self, Some e)
      | Inr anchor_dt \<Rightarrow>
          (case fill_rows self (set_row_count (en - start + 1) (clear_table (rows self))) 0 start
                  (nat (en - start + 1)) of
             (rs, err) \<Rightarrow>
               (let self' = end_table_update
                              ((begin_table_update self)\<lparr>range_start := start, range_end := en, rows := rs\<rparr>)
                in case err of
                     Some e \<Rightarrow> (self', Some e)
                   | None \<Rightarrow>
                       (case anchor_dt of
                          None \<Rightarrow> (self', None)
                        | Some a \<Rightarrow> scroll_to_date evs a self'))))"
  by pat_completeness auto

termination
  by (relation "measure (\<lambda>x. case x of
        Inl (Inl (evs, dt, self)) \<Rightarrow> 4 * length evs
      | Inl (Inr (ev, evs, self)) \<Rightarrow> 4 * length evs + 3
      | Inr (Inl (t, evs, n, self)) \<Rightarrow> 4 * length evs + 2
      | Inr (Inr (Inl (t, evs, n, self))) \<Rightarrow> 4 * length evs + 2
      | Inr (Inr (Inr (t, evs, s, e, k, self))) \<Rightarrow> 4 * length evs + 1)") auto

text \<open>\<^verbatim>\<open>rebuild_all\<close> and \<^verbatim>\<open>set_view_anchor\<close> (which keeps no scroll position, so reads no row).\<close>

definition rebuild_all :: "int \<Rightarrow> scroll_event option list \<Rightarrow> app \<Rightarrow> app \<times> exn option" where
  "rebuild_all top_row evs self = rebuild_range top_row evs (range_start self) (range_end self) True self"

definition set_view_anchor :: "date \<Rightarrow> app \<Rightarrow> app \<times> exn option" where
  "set_view_anchor anchor self =
     (case date_add anchor 61 of
        Inl e \<Rightarrow> (self\<lparr>current_anchor_date := anchor\<rparr>, Some e)
      | Inr en \<Rightarrow> rebuild_range 0 [] anchor en False (self\<lparr>current_anchor_date := anchor\<rparr>))"

text \<open>
  \<^verbatim>\<open>MonthPickerDialog._jump_today\<close>: \<^verbatim>\<open>set_view_anchor(t)\<close>, then \<^verbatim>\<open>scroll_to_date(t)\<close>.
\<close>

definition jump_today :: "scroll_event option list \<Rightarrow> date \<Rightarrow> app \<Rightarrow> app \<times> exn option" where
  "jump_today evs t self =
     (case set_view_anchor t self of
        (self, Some e) \<Rightarrow> (self, Some e)
      | (self, None) \<Rightarrow> scroll_to_date evs t self)"

subsection \<open>The earlier variant\<close>

text \<open>
  \<^verbatim>\<open>_append_days\<close> of \<^verbatim>\<open>D-Scheduler/d-scheduler.py\<close>.
\<close>

definition append_days_old :: "int \<Rightarrow> app \<Rightarrow> app \<times> exn option" where
  "append_days_old n self =
     (let start_row = length (rows self);
          self = self\<lparr>rows := set_row_count (int start_row + n) (rows self)\<rparr>
      in case date_add (range_end self) 1 of
           Inl e \<Rightarrow> (self, Some e)
         | Inr dt \<Rightarrow>
             (case fill_rows self (rows self) start_row dt (nat n) of
                (rs, Some e) \<Rightarrow> (self\<lparr>rows := rs\<rparr>, Some e)
              | (rs, None) \<Rightarrow>
                  (case date_add (range_end self) n of
                     Inl e \<Rightarrow> (self\<lparr>rows := rs\<rparr>, Some e)
                   | Inr en \<Rightarrow> (self\<lparr>rows := rs, range_end := en\<rparr>, None))))"

text \<open>
  \<^verbatim>\<open>scroll_to_date\<close>, \<^verbatim>\<open>_on_scroll_extend_if_needed\<close> and \<^verbatim>\<open>_prepend_days\<close> of that file call
  one another: nothing blocks the signals of the scroll bar there, and the handler has no
  condition on who moved it.
\<close>

function scroll_to_date_old :: "scroll_event option list \<Rightarrow> date \<Rightarrow> app \<Rightarrow> app \<times> exn option"
  and on_scroll_extend_if_needed_old :: "scroll_event \<Rightarrow> scroll_event option list \<Rightarrow> app \<Rightarrow> app \<times> exn option"
  and prepend_days_old :: "int \<Rightarrow> scroll_event option list \<Rightarrow> int \<Rightarrow> app \<Rightarrow> app \<times> exn option"
where
  "scroll_to_date_old evs dt self =
     (if dt < range_start self \<or> dt > range_end self then (self, None)
      else if \<not> item_exists (rows self) (nat (dt - range_start self)) then (self, None)
      else case evs of
             Some ev # evs' \<Rightarrow>
               if signals_blocked self then (self, None)
               else on_scroll_extend_if_needed_old ev evs' self
           | _ \<Rightarrow> (self, None))"
| "on_scroll_extend_if_needed_old ev evs self =
     (case (if ev_maximum ev - ev_value ev < 120 then append_days_old 60 self else (self, None)) of
        (self', Some e) \<Rightarrow> (self', Some e)
      | (self', None) \<Rightarrow>
          if ev_value ev < 120 then prepend_days_old (ev_top_row ev) evs 60 self'
          else (self', None))"
| "prepend_days_old top_row evs n self =
     (case date_add (range_start self) (max 0 top_row) of
        Inl e \<Rightarrow> (self, Some e)
      | Inr anchor_dt \<Rightarrow>
          (let self = self\<lparr>rows := replicate (nat n) None @ rows self\<rparr>
           in case date_add (range_start self) (- n) of
                Inl e \<Rightarrow> (self, Some e)
              | Inr dt \<Rightarrow>
                  (case fill_rows self (rows self) 0 dt (nat n) of
                     (rs, Some e) \<Rightarrow> (self\<lparr>rows := rs\<rparr>, Some e)
                   | (rs, None) \<Rightarrow>
                       scroll_to_date_old evs anchor_dt (self\<lparr>rows := rs, range_start := dt\<rparr>))))"
  by pat_completeness auto

termination
  by (relation "measure (\<lambda>x. case x of
        Inl (evs, dt, self) \<Rightarrow> 3 * length evs
      | Inr (Inl (ev, evs, self)) \<Rightarrow> 3 * length evs + 2
      | Inr (Inr (t, evs, n, self)) \<Rightarrow> 3 * length evs + 1)") auto

text \<open>\<^verbatim>\<open>rebuild_range\<close>, \<^verbatim>\<open>rebuild_all\<close> and \<^verbatim>\<open>set_view_anchor\<close> of that file.\<close>

definition rebuild_range_old :: "int \<Rightarrow> scroll_event option list \<Rightarrow> date \<Rightarrow> date \<Rightarrow> bool \<Rightarrow> app \<Rightarrow> app \<times> exn option" where
  "rebuild_range_old top_row evs start en keep_scroll self =
     (case (if keep_scroll \<and> rows self \<noteq> []
            then map_sum id Some (date_add (range_start self) (max 0 top_row)) else Inr None) of
        Inl e \<Rightarrow> (self, Some e)
      | Inr anchor_dt \<Rightarrow>
          (case fill_rows self (set_row_count (en - start + 1) (clear_table (rows self))) 0 start
                  (nat (en - start + 1)) of
             (rs, err) \<Rightarrow>
               (let self' = self\<lparr>range_start := start, range_end := en, rows := rs\<rparr>
                in case err of
                     Some e \<Rightarrow> (self', Some e)
                   | None \<Rightarrow>
                       (case anchor_dt of
                          None \<Rightarrow> (self', None)
                        | Some a \<Rightarrow> scroll_to_date_old evs a self'))))"

definition rebuild_all_old :: "int \<Rightarrow> scroll_event option list \<Rightarrow> app \<Rightarrow> app \<times> exn option" where
  "rebuild_all_old top_row evs self =
     rebuild_range_old top_row evs (range_start self) (range_end self) True self"

definition set_view_anchor_old :: "date \<Rightarrow> app \<Rightarrow> app \<times> exn option" where
  "set_view_anchor_old anchor self =
     (case date_add anchor 61 of
        Inl e \<Rightarrow> (self\<lparr>current_anchor_date := anchor\<rparr>, Some e)
      | Inr en \<Rightarrow> rebuild_range_old 0 [] anchor en False (self\<lparr>current_anchor_date := anchor\<rparr>))"

text \<open>
  \<^verbatim>\<open>_load_json_path\<close> of that file. It assigns to \<^verbatim>\<open>self.columns\<close> and \<^verbatim>\<open>self.cells\<close> what
  the document has for \<^verbatim>\<open>columns\<close> and \<^verbatim>\<open>cells\<close>, as it is. The state here holds Column
  Definitions and Day Records of the shape the program writes: \<open>columns_of_json\<close> and
  \<open>cells_of_json\<close> read a value of this shape, and the load of a document that has another
  value for one of them has no result here (\<open>None\<close>).
\<close>

definition column_of_json :: "json \<Rightarrow> column option" where
  "column_of_json v =
     (case v of
        JObj d \<Rightarrow>
          (if map fst d = [''id'', ''title'', ''width''] then
             (case map snd d of
                [JStr i, JStr t, JInt w] \<Rightarrow> Some \<lparr>col_id = i, title = t, width = w\<rparr>
              | _ \<Rightarrow> None)
           else None)
      | _ \<Rightarrow> None)"

definition columns_of_json :: "json \<Rightarrow> column list option" where
  "columns_of_json v = (case v of JArr cs \<Rightarrow> those (map column_of_json cs) | _ \<Rightarrow> None)"

definition entry_of_json :: "json \<Rightarrow> (string \<times> string) list option" where
  "entry_of_json v =
     (case v of
        JObj items \<Rightarrow>
          those (map (\<lambda>(cid, txt). case txt of JStr t \<Rightarrow> Some (cid, t) | _ \<Rightarrow> None) items)
      | _ \<Rightarrow> None)"

definition cells_of_json :: "json \<Rightarrow> (string \<times> (string \<times> string) list) list option" where
  "cells_of_json v =
     (case v of
        JObj kvs \<Rightarrow> those (map (\<lambda>(k, e). map_option (Pair k) (entry_of_json e)) kvs)
      | _ \<Rightarrow> None)"

definition load_json_path_old :: "fs \<Rightarrow> string \<Rightarrow> bool \<Rightarrow> app \<Rightarrow> (bool \<times> app) option" where
  "load_json_path_old files path silent self =
     (case files path of
        None \<Rightarrow> Some (load_failed silent self)
      | Some Partial \<Rightarrow> Some (load_failed silent self)
      | Some (Complete obj) \<Rightarrow>
          (case obj of
             JObj d \<Rightarrow>
               (case (case map_of d ''columns'' of
                        None \<Rightarrow> Some (columns self) | Some v \<Rightarrow> columns_of_json v,
                      case map_of d ''cells'' of
                        None \<Rightarrow> Some (cells self) | Some v \<Rightarrow> cells_of_json v) of
                  (Some cols, Some cs) \<Rightarrow>
                    Some (load_year_month silent d (self\<lparr>columns := cols, cells := cs\<rparr>))
                | _ \<Rightarrow> None)
           | _ \<Rightarrow> Some (load_failed silent self)))"

text \<open>
  The loop of \<^verbatim>\<open>_load_last_autosave\<close> over the candidate paths: a path that does not exist is
  passed over, and the first load that returns \<open>True\<close> ends the loop.
\<close>

fun load_candidates_old :: "fs \<Rightarrow> string list \<Rightarrow> app \<Rightarrow> app option" where
  "load_candidates_old files [] self = Some self"
| "load_candidates_old files (p # ps) self =
     (if files p = None then load_candidates_old files ps self
      else
        (case load_json_path_old files p True self of
           None \<Rightarrow> None
         | Some (ok, s) \<Rightarrow>
             if ok then Some (s\<lparr>autosave_path := p\<rparr>) else load_candidates_old files ps s))"

text \<open>
  \<^verbatim>\<open>_load_last_autosave\<close>: \<open>sp\<close> is the path the settings have for \<^verbatim>\<open>autosave_path\<close>, if they
  have one that is not empty, and \<open>dflt\<close> is \<^verbatim>\<open>DEFAULT_AUTOSAVE\<close>.
\<close>

definition load_last_autosave_old :: "fs \<Rightarrow> string option \<Rightarrow> string \<Rightarrow> app \<Rightarrow> app option" where
  "load_last_autosave_old files sp dflt self =
     load_candidates_old files ((case sp of None \<Rightarrow> [] | Some p \<Rightarrow> [p]) @ [dflt]) self"

text \<open>
  The window in \<^verbatim>\<open>__init__\<close> of that file: the 62 days from the first of the month of
  \<^verbatim>\<open>date.today()\<close>, then \<^verbatim>\<open>_load_last_autosave\<close>, then the first drawing,
  \<^verbatim>\<open>rebuild_range(self.range_start, self.range_end, keep_scroll=False)\<close>. \<open>self\<close> holds what
  \<^verbatim>\<open>__init__\<close> gives the other fields (the columns of the settings, no Day Record, a table
  with no row). An exception of the first two statements ends \<^verbatim>\<open>__init__\<close>.
\<close>

definition init_old :: "date \<Rightarrow> fs \<Rightarrow> string option \<Rightarrow> string \<Rightarrow> app \<Rightarrow> (app \<times> exn option) option" where
  "init_old today files sp dflt self =
     (case ord2ymd today of
        (y, m, d) \<Rightarrow>
          (case date_new y m 1 of
             Inl e \<Rightarrow> Some (self, Some e)
           | Inr month_start \<Rightarrow>
               (case date_add month_start 61 of
                  Inl e \<Rightarrow> Some (self\<lparr>range_start := month_start\<rparr>, Some e)
                | Inr en \<Rightarrow>
                    (case load_last_autosave_old files sp dflt
                            (self\<lparr>range_start := month_start, range_end := en,
                                  current_anchor_date := month_start\<rparr>) of
                       None \<Rightarrow> None
                     | Some s \<Rightarrow>
                         Some (rebuild_range_old 0 [] (range_start s) (range_end s) False s)))))"

section \<open>Deleting a column\<close>

text \<open>
  In \<^verbatim>\<open>D-Scheduler_Code/d-scheduler.py\<close> a column is deleted in the settings dialog. A row of
  its column list holds the identifier of the column, the text of the title editor and the
  value of the width spin box; \<^verbatim>\<open>__init__\<close> makes one row with \<^verbatim>\<open>_append_column_row\<close> of each
  column of the settings.
\<close>

record col_row =
  row_id :: string
  row_title :: string
  row_width :: int

definition append_column_row :: "column \<Rightarrow> col_row" where
  "append_column_row c =
     \<lparr>row_id = col_id c, row_title = title c,
      row_width = max 80 (min (if width c = 0 then 240 else width c) 1200)\<rparr>"

text \<open>\<^verbatim>\<open>do_del\<close> of the row \<open>i\<close>: the row leaves the list.\<close>

definition do_del :: "nat \<Rightarrow> col_row list \<Rightarrow> col_row list" where
  "do_del i rs = take i rs @ drop (Suc i) rs"

text \<open>
  The loop of \<^verbatim>\<open>_on_apply\<close> over the rows: \<open>n\<close> counts the uuid draws so far;
  \<^verbatim>\<open>uuid.uuid4().hex[:2]\<close> is the start of \<^verbatim>\<open>uuid.uuid4().hex[:4]\<close>.
\<close>

fun on_apply_columns :: "pyenv \<Rightarrow> col_row list \<Rightarrow> nat \<Rightarrow> string list \<Rightarrow> column list" where
  "on_apply_columns E [] n seen = []"
| "on_apply_columns E (r # rest) n seen =
     (let ttl = strip (row_title r);
          cid0 = (if row_id r \<noteq> [] then row_id r
                  else (if ttl \<noteq> [] then ttl else ''col'') @ ''-'' @ uuid4_hex4 E n);
          n1 = (if row_id r \<noteq> [] then n else Suc n);
          cid = (if cid0 \<in> set seen then cid0 @ ''-'' @ take 2 (uuid4_hex4 E n1) else cid0);
          n2 = (if cid0 \<in> set seen then Suc n1 else n1)
      in \<lparr>col_id = cid, title = (if ttl \<noteq> [] then ttl else cid), width = row_width r\<rparr>
           # on_apply_columns E rest n2 (cid # seen))"

text \<open>
  \<^verbatim>\<open>on_applied\<close> of \<^verbatim>\<open>open_settings\<close>, from its start to the call of \<^verbatim>\<open>rebuild_all\<close>: \<open>cols\<close>
  and \<open>expand\<close> are the columns and the \<^verbatim>\<open>expand_days_each\<close> of the settings it receives. The
  statements after \<^verbatim>\<open>rebuild_all\<close> (the font, \<^verbatim>\<open>ensure_date_visible\<close>, \<^verbatim>\<open>scroll_to_date\<close>, the
  autosave timer, the settings file) assign neither \<^verbatim>\<open>self.columns\<close> nor \<^verbatim>\<open>self.cells\<close>, and
  are not embedded.
\<close>

definition on_applied :: "int \<Rightarrow> scroll_event option list \<Rightarrow> column list \<Rightarrow> int \<Rightarrow> app
    \<Rightarrow> app \<times> exn option" where
  "on_applied top_row evs cols expand self =
     rebuild_all top_row evs (self\<lparr>columns := cols, expand_each := expand\<rparr>)"

text \<open>
  Deleting the column of the row \<open>i\<close>: the dialog is opened on the columns \<open>cols\<close> of the
  settings, the button of the row is pressed, then the button that applies.
\<close>

definition delete_column :: "pyenv \<Rightarrow> int \<Rightarrow> scroll_event option list \<Rightarrow> nat \<Rightarrow> column list \<Rightarrow> int
    \<Rightarrow> app \<Rightarrow> app \<times> exn option" where
  "delete_column E top_row evs i cols expand self =
     on_applied top_row evs (on_apply_columns E (do_del i (map append_column_row cols)) 0 [])
       expand self"

subsection \<open>The earlier variant\<close>

text \<open>
  \<^verbatim>\<open>SettingsDialog._remove_selected_col\<close> of \<^verbatim>\<open>D-Scheduler/d-scheduler.py\<close> (the earliest file
  has the same text). The loader of these files adopts the \<^verbatim>\<open>cells\<close> of a document as they are,
  so that a Day Record can be any JSON value, and so can \<^verbatim>\<open>self.cells\<close>; the Column
  Definitions are taken as the dialog makes them, with a string for identifier.

  \<^verbatim>\<open>sub in s\<close> of two strings.
\<close>

fun contains :: "string \<Rightarrow> string \<Rightarrow> bool" where
  "contains sub [] = (sub = [])"
| "contains sub (c # cs) = (take (length sub) (c # cs) = sub \<or> contains sub cs)"

text \<open>
  \<^verbatim>\<open>if col_id in rec: del rec[col_id]\<close> on one Day Record: a dictionary loses the key; a string
  that holds the identifier and a list that holds it raise on the deletion, and so does the
  test itself on \<^verbatim>\<open>null\<close>, a number or a truth value.
\<close>

definition delete_from_record :: "string \<Rightarrow> json \<Rightarrow> exn + json" where
  "delete_from_record cid v =
     (case v of
        JObj d \<Rightarrow> Inr (JObj (if cid \<in> fst ` set d then AList.delete cid d else d))
      | JStr s \<Rightarrow> if contains cid s then Inl TypeError else Inr v
      | JArr xs \<Rightarrow> if JStr cid \<in> set xs then Inl TypeError else Inr v
      | _ \<Rightarrow> Inl TypeError)"

text \<open>
  The loop over the Day Records, which changes them in place: the records as the loop leaves
  them, and the exception that ends it, if any.
\<close>

fun cascade :: "string \<Rightarrow> (string \<times> json) list \<Rightarrow> (string \<times> json) list \<times> exn option" where
  "cascade cid [] = ([], None)"
| "cascade cid ((k, v) # rest) =
     (case delete_from_record cid v of
        Inl e \<Rightarrow> ((k, v) # rest, Some e)
      | Inr v' \<Rightarrow> (case cascade cid rest of (rest', err) \<Rightarrow> ((k, v') # rest', err)))"

text \<open>
  The method on the store, that is on \<^verbatim>\<open>self.app.columns\<close> and \<^verbatim>\<open>self.app.cells\<close>, from its
  start to \<^verbatim>\<open>del self.app.columns[r]\<close>; \<open>r\<close> is the current row of the column list. The
  statements after it (the list, \<^verbatim>\<open>rebuild_all\<close>, the dirty flag, the settings) assign neither,
  and are not embedded.
\<close>

definition remove_selected_col :: "int \<Rightarrow> column list \<times> json \<Rightarrow> (column list \<times> json) \<times> exn option" where
  "remove_selected_col r store =
     (case store of
        (cols, cs) \<Rightarrow>
          if r < 0 then (store, None)
          else if \<not> nat r < length cols then (store, Some IndexError)
          else
            (case cs of
               JObj kvs \<Rightarrow>
                 (case cascade (col_id (cols ! nat r)) kvs of
                    (kvs', Some e) \<Rightarrow> ((cols, JObj kvs'), Some e)
                  | (kvs', None) \<Rightarrow>
                      ((take (nat r) cols @ drop (Suc (nat r)) cols, JObj kvs'), None))
             | _ \<Rightarrow> (store, Some AttributeError)))"

section \<open>Notions the properties are stated with\<close>

text \<open>
  The entries of a \<^verbatim>\<open>cells\<close> object the loader keeps (the key has the shape of a date and the
  value is an object), and the Day Record it makes of one.
\<close>

definition is_record :: "string \<times> json \<Rightarrow> bool" where
  "is_record kv = (fullmatch_date (fst kv) \<and> (case snd kv of JObj items \<Rightarrow> True | _ \<Rightarrow> False))"

definition record_of :: "pyenv \<Rightarrow> string \<times> json \<Rightarrow> string \<times> (string \<times> string) list" where
  "record_of E kv =
     (fst kv, case snd kv of
                JObj items \<Rightarrow> map (\<lambda>(cid, txt). (cid, cell_text E txt)) items
              | _ \<Rightarrow> [])"

text \<open>A parsed object has each key once, and so has each object in it.\<close>

definition unique_keys :: "(string \<times> json) list \<Rightarrow> bool" where
  "unique_keys kvs =
     (distinct (map fst kvs) \<and>
      list_all (\<lambda>kv. case snd kv of JObj items \<Rightarrow> distinct (map fst items) | _ \<Rightarrow> True) kvs)"

text \<open>The window holds a date, and one window lies within another.\<close>

definition window_ok :: "app \<Rightarrow> bool" where
  "window_ok self = (range_start self \<le> range_end self)"

definition widened :: "app \<Rightarrow> app \<Rightarrow> bool" where
  "widened self self' = (range_start self' \<le> range_start self \<and> range_end self \<le> range_end self')"

text \<open>
  An operation has at most extended the window: it leaves the Day Records and the Column
  Definitions of the state it started from and a window that holds the former one, and the
  exception that escapes it, if any, is the \<^verbatim>\<open>OverflowError\<close> of a date outside the calendar.
\<close>

definition extended :: "app \<Rightarrow> app \<times> exn option \<Rightarrow> bool" where
  "extended self r =
     (cells (fst r) = cells self \<and> columns (fst r) = columns self \<and> widened self (fst r) \<and>
      (snd r = None \<or> snd r = Some OverflowError))"

text \<open>
  The concrete runs below take place in this environment and start from this state (a
  window of 62 days from 2025-01-01, one Day Record); none of them reaches \<^verbatim>\<open>str\<close> of a value
  that is not a string, \<^verbatim>\<open>int\<close> of a string or a uuid draw.
\<close>

definition sample_env :: pyenv where
  "sample_env =
     \<lparr>repr_of = (\<lambda>v. ''?''), int_of_str = (\<lambda>s. None),
      uuid4_str = (\<lambda>n. ''00000000-0000-4000-8000-000000000000''), uuid4_hex4 = (\<lambda>n. ''0000'')\<rparr>"

definition sample_app :: app where
  "sample_app =
     \<lparr>columns = [\<lparr>col_id = ''col-1'', title = ''Plan'', width = 260\<rparr>,
                 \<lparr>col_id = ''col-2'', title = ''Memo'', width = 260\<rparr>],
      cells = [(''2025-01-05'', [(''col-1'', ''meeting'')])],
      range_start = 739252, range_end = 739313, current_anchor_date = 739252,
      dirty = True, autosave_path = ''notes.json'', expand_each = 60, rows = [],
      signals_blocked = False, is_building = False, is_extending = False,
      sb_prev_block = False, last_user_scroll_ms = None, user_scroll_expire_ms = None,
      warnings = 0\<rparr>"

text \<open>
  Three documents: one whose \<^verbatim>\<open>cells\<close> has the keys \<^verbatim>\<open>bad-key\<close> and \<^verbatim>\<open>2025-02-30\<close>, one
  with the year 0, and one with the month 12 of the year 9999.
\<close>

definition doc_invalid_keys :: json where
  "doc_invalid_keys =
     JObj [(''columns'', JArr [JObj [(''id'', JStr ''a'')]]),
           (''cells'', JObj [(''bad-key'', JObj [(''a'', JStr ''x'')]),
                             (''2025-02-30'', JObj [(''a'', JStr ''y'')])])]"

definition doc_year_zero :: json where
  "doc_year_zero =
     JObj [(''columns'', JArr [JObj [(''id'', JStr ''a'')]]),
           (''cells'', JObj []),
           (''year'', JInt 0), (''month'', JInt 1)]"

definition doc_last_month :: json where
  "doc_last_month =
     JObj [(''columns'', JArr [JObj [(''id'', JStr ''a'')]]),
           (''cells'', JObj []),
           (''year'', JInt 9999), (''month'', JInt 12)]"

section \<open>The loader: which entries of a document it keeps\<close>

lemma update_fresh: "k \<notin> fst ` set al \<Longrightarrow> AList.update k v al = al @ [(k, v)]"
  by (induction al) auto

lemma load_entry_fresh:
  "distinct (map fst items) \<Longrightarrow> fst ` set items \<inter> fst ` set acc = {} \<Longrightarrow>
   load_entry E items acc = acc @ map (\<lambda>(cid, t). (cid, cell_text E t)) items"
proof (induction items arbitrary: acc)
  case Nil
  then show ?case by simp
next
  case (Cons p items)
  obtain cid t where p: "p = (cid, t)" by (cases p)
  have fresh: "cid \<notin> fst ` set acc" using Cons.prems(2) p by auto
  have "fst ` set items \<inter> fst ` set (acc @ [(cid, cell_text E t)]) = {}"
    using Cons.prems p by auto
  moreover have "distinct (map fst items)" using Cons.prems(1) by simp
  ultimately have "load_entry E items (acc @ [(cid, cell_text E t)]) =
      (acc @ [(cid, cell_text E t)]) @ map (\<lambda>(cid, t). (cid, cell_text E t)) items"
    by (rule Cons.IH[rotated])
  then show ?case using fresh p by (simp add: update_fresh)
qed

lemma load_cells_fresh:
  "unique_keys kvs \<Longrightarrow> fst ` set kvs \<inter> fst ` set acc = {} \<Longrightarrow>
   load_cells E kvs acc = acc @ map (record_of E) (filter is_record kvs)"
proof (induction kvs arbitrary: acc)
  case Nil
  then show ?case by simp
next
  case (Cons p kvs)
  obtain k v where p: "p = (k, v)" by (cases p)
  have uk: "unique_keys kvs" using Cons.prems(1) by (simp add: unique_keys_def)
  have fresh: "k \<notin> fst ` set acc" using Cons.prems(2) p by auto
  have disj: "\<And>x. fst ` set kvs \<inter> fst ` set (acc @ [(k, x)]) = {}"
    using Cons.prems p by (auto simp: unique_keys_def)
  have disj0: "fst ` set kvs \<inter> fst ` set acc = {}" using Cons.prems(2) by auto
  show ?case
  proof (cases "is_record p")
    case True
    then obtain items where v: "v = JObj items" and fm: "fullmatch_date k"
      using p by (auto simp: is_record_def split: json.splits)
    have di: "distinct (map fst items)" using Cons.prems(1) p v by (simp add: unique_keys_def)
    have le: "load_entry E items [] = map (\<lambda>(cid, t). (cid, cell_text E t)) items"
      using load_entry_fresh[OF di, of "[]" E] by simp
    show ?thesis using True p v fm fresh Cons.IH[OF uk disj] le
      by (simp add: update_fresh record_of_def)
  next
    case False
    then show ?thesis using p Cons.IH[OF uk disj0]
      by (auto simp: is_record_def split: json.splits)
  qed
qed

text \<open>The year and month part changes neither the columns nor the Day Records.\<close>

lemma load_year_month_frame:
  "load_year_month silent d self = (ok, self') \<Longrightarrow>
   cells self' = cells self \<and> columns self' = columns self"
  by (auto simp: load_year_month_def load_failed_def Let_def
           split: option.splits sum.splits if_splits prod.splits)

text \<open>What a load that reports success has adopted.\<close>

lemma load_json_path_success:
  assumes "load_json_path E files path silent self = (True, self')"
    and "files path = Some (Complete (JObj d))"
  shows "cells self' = validated_cells E self d"
    and "columns self' = validated_columns E self d"
    and "columns self' \<noteq> []"
proof -
  have ne: "validated_columns E self d \<noteq> []"
    using assms by (auto simp: load_json_path_def load_failed_def split: if_splits)
  then have "load_year_month silent d
               (self\<lparr>columns := validated_columns E self d, cells := validated_cells E self d\<rparr>)
             = (True, self')"
    using assms by (simp add: load_json_path_def)
  from load_year_month_frame[OF this]
  show "cells self' = validated_cells E self d" and "columns self' = validated_columns E self d"
    by simp_all
  then show "columns self' \<noteq> []" using ne by simp
qed

text \<open>
  C10. On a successful load of a document whose \<^verbatim>\<open>cells\<close> is an object, the Day Records in
  memory are exactly the entries with a key of the date shape and an object value, each
  with every one of its column entries, in order: the value \<^verbatim>\<open>null\<close> became the empty
  string and any other value its \<^verbatim>\<open>str\<close>. The loaded column definitions play no part: an
  entry whose column identifier is none of theirs is there as well.
\<close>

theorem load_keeps_unknown_column_entries:
  assumes "files path = Some (Complete (JObj d))"
    and "map_of d ''cells'' = Some (JObj kvs)"
    and "unique_keys kvs"
    and "load_json_path E files path silent self = (True, self')"
  shows "cells self' = map (record_of E) (filter is_record kvs) \<and>
         (\<forall>k items cid t.
            (k, JObj items) \<in> set kvs \<and> fullmatch_date k \<and> (cid, t) \<in> set items \<and>
            cid \<notin> set (map col_id (columns self'))
            \<longrightarrow> (\<exists>entry. (k, entry) \<in> set (cells self') \<and> (cid, cell_text E t) \<in> set entry))"
proof -
  have "cells self' = load_cells E kvs []"
    using load_json_path_success(1)[OF assms(4) assms(1)] assms(2)
    by (simp add: validated_cells_def dict_get_default_def)
  then have eq: "cells self' = map (record_of E) (filter is_record kvs)"
    using load_cells_fresh[OF assms(3), of "[]" E] by simp
  have "\<exists>entry. (k, entry) \<in> set (cells self') \<and> (cid, cell_text E t) \<in> set entry"
    if "(k, JObj items) \<in> set kvs" "fullmatch_date k" "(cid, t) \<in> set items" for k items cid t
  proof -
    have "is_record (k, JObj items)" using that(2) by (simp add: is_record_def)
    then have "record_of E (k, JObj items) \<in> set (cells self')"
      using that(1) eq by auto
    moreover have "(cid, cell_text E t) \<in> set (snd (record_of E (k, JObj items)))"
      using that(3) by (force simp: record_of_def)
    ultimately show ?thesis
      by (intro exI[of _ "snd (record_of E (k, JObj items))"]) (simp add: record_of_def)
  qed
  then show ?thesis using eq by blast
qed

theorem load_keeps_unknown_column_entries_witness:
  "load_json_path sample_env
     [''f'' \<mapsto> Complete (JObj [(''columns'', JArr [JObj [(''id'', JStr ''a'')]]),
                                (''cells'', JObj [(''2025-01-05'', JObj [(''zz'', JStr ''kept''), (''a'', JNull)])])])]
     ''f'' True sample_app
   = (True, sample_app\<lparr>columns := [\<lparr>col_id = ''a'', title = ''a'', width = 240\<rparr>],
                         cells := [(''2025-01-05'', [(''zz'', ''kept''), (''a'', [])])],
                         dirty := False\<rparr>)
   \<and> cells (sample_app\<lparr>columns := [\<lparr>col_id = ''a'', title = ''a'', width = 240\<rparr>],
                         cells := [(''2025-01-05'', [(''zz'', ''kept''), (''a'', [])])],
                         dirty := False\<rparr>)
     = map (record_of sample_env)
         (filter is_record [(''2025-01-05'', JObj [(''zz'', JStr ''kept''), (''a'', JNull)])])"
proof -
  let ?kvs = "[(''2025-01-05'', JObj [(''zz'', JStr ''kept''), (''a'', JNull)])]"
  let ?d = "[(''columns'', JArr [JObj [(''id'', JStr ''a'')]]), (''cells'', JObj ?kvs)]"
  let ?files = "[''f'' \<mapsto> Complete (JObj ?d)]"
  let ?s = "sample_app\<lparr>columns := [\<lparr>col_id = ''a'', title = ''a'', width = 240\<rparr>],
                         cells := [(''2025-01-05'', [(''zz'', ''kept''), (''a'', [])])],
                         dirty := False\<rparr>"
  have h1: "?files ''f'' = Some (Complete (JObj ?d))" by simp
  have h2: "map_of ?d ''cells'' = Some (JObj ?kvs)" by simp
  have h3: "unique_keys ?kvs" by (simp add: unique_keys_def)
  have h4: "load_json_path sample_env ?files ''f'' True sample_app = (True, ?s)"
    by code_simp
  from load_keeps_unknown_column_entries[OF h1 h2 h3 h4] show ?thesis using h4 by blast
qed

lemma load_cells_keys:
  "fst ` set (load_cells E kvs acc) =
     fst ` set acc \<union> {k. fullmatch_date k \<and> (\<exists>items. (k, JObj items) \<in> set kvs)}"
proof (induction kvs arbitrary: acc)
  case Nil
  then show ?case by simp
next
  case (Cons p kvs)
  obtain k v where p: "p = (k, v)" by (cases p)
  show ?case
  proof (cases "fullmatch_date k")
    case False
    then show ?thesis using p Cons.IH[of acc] by auto
  next
    case True
    show ?thesis
    proof (cases v)
      case (JObj items)
      then show ?thesis using p True Cons.IH[of "AList.update k (load_entry E items []) acc"]
        by (auto simp: AList.dom_update)
    qed (use p True Cons.IH[of acc] in auto)
  qed
qed

text \<open>
  C5, as the code has it. On a successful load of a document whose \<^verbatim>\<open>cells\<close> is an object,
  the keys of the Day Records in memory are exactly the keys of the shape four digits,
  hyphen, two digits, hyphen, two digits whose value is an object: a key of another shape
  is dropped, and a key of that shape is kept whether or not it names a day of the
  calendar. The load raises nothing: it returns its answer.
\<close>

theorem load_keeps_keys_of_date_shape:
  assumes "files path = Some (Complete (JObj d))"
    and "map_of d ''cells'' = Some (JObj kvs)"
    and "load_json_path E files path silent self = (True, self')"
  shows "fst ` set (cells self') =
           {k. fullmatch_date k \<and> (\<exists>items. (k, JObj items) \<in> set kvs)}"
proof -
  have "cells self' = load_cells E kvs []"
    using load_json_path_success(1)[OF assms(3) assms(1)] assms(2)
    by (simp add: validated_cells_def dict_get_default_def)
  then show ?thesis using load_cells_keys[of E kvs "[]"] by simp
qed

theorem load_keeps_keys_of_date_shape_witness:
  "load_json_path sample_env [''f'' \<mapsto> Complete doc_invalid_keys] ''f'' True sample_app
     = (True, sample_app\<lparr>columns := [\<lparr>col_id = ''a'', title = ''a'', width = 240\<rparr>],
                           cells := [(''2025-02-30'', [(''a'', ''y'')])], dirty := False\<rparr>)
   \<and> fst ` set [(''2025-02-30'', [(''a'', ''y'')])]
     = {k. fullmatch_date k \<and>
           (\<exists>items. (k, JObj items) \<in> set [(''bad-key'', JObj [(''a'', JStr ''x'')]),
                                              (''2025-02-30'', JObj [(''a'', JStr ''y'')])])}"
proof -
  let ?kvs = "[(''bad-key'', JObj [(''a'', JStr ''x'')]), (''2025-02-30'', JObj [(''a'', JStr ''y'')])]"
  let ?d = "[(''columns'', JArr [JObj [(''id'', JStr ''a'')]]), (''cells'', JObj ?kvs)]"
  let ?s = "sample_app\<lparr>columns := [\<lparr>col_id = ''a'', title = ''a'', width = 240\<rparr>],
                           cells := [(''2025-02-30'', [(''a'', ''y'')])], dirty := False\<rparr>"
  have h1: "[''f'' \<mapsto> Complete doc_invalid_keys] ''f'' = Some (Complete (JObj ?d))"
    by (simp add: doc_invalid_keys_def)
  have h2: "map_of ?d ''cells'' = Some (JObj ?kvs)" by simp
  have h3: "load_json_path sample_env [''f'' \<mapsto> Complete doc_invalid_keys] ''f'' True sample_app
              = (True, ?s)"
    by code_simp
  from load_keeps_keys_of_date_shape[OF h1 h2 h3] show ?thesis using h3 by simp
qed

text \<open>
  The key \<^verbatim>\<open>2025-02-30\<close> names no day of the calendar and is among the Day Records after
  the load.
\<close>

theorem load_keeps_invalid_calendar_date:
  "date_new 2025 2 30 = Inl ValueError \<and>
   ''2025-02-30'' \<in> set (map fst (cells (snd (load_json_path sample_env
        [''f'' \<mapsto> Complete doc_invalid_keys] ''f'' True sample_app)))) \<and>
   ''bad-key'' \<notin> set (map fst (cells (snd (load_json_path sample_env
        [''f'' \<mapsto> Complete doc_invalid_keys] ''f'' True sample_app))))"
  by code_simp

section \<open>A load that fails\<close>

text \<open>
  C4, the part the code keeps. When the file is missing, is no JSON text, is no JSON object,
  or yields no valid column, the load returns \<open>False\<close> and the Day Records, the Column
  Definitions, the bounds of the window and the dirty flag are what they were.
\<close>

theorem load_rejected_before_adoption:
  assumes "files path = None \<or> files path = Some Partial \<or>
           (\<exists>obj. files path = Some (Complete obj) \<and> (\<forall>d. obj \<noteq> JObj d)) \<or>
           (\<exists>d. files path = Some (Complete (JObj d)) \<and> validated_columns E self d = [])"
  shows "fst (load_json_path E files path silent self) = False \<and>
         cells (snd (load_json_path E files path silent self)) = cells self \<and>
         columns (snd (load_json_path E files path silent self)) = columns self \<and>
         range_start (snd (load_json_path E files path silent self)) = range_start self \<and>
         range_end (snd (load_json_path E files path silent self)) = range_end self \<and>
         dirty (snd (load_json_path E files path silent self)) = dirty self"
proof -
  have "load_json_path E files path silent self = load_failed silent self"
    using assms by (auto simp: load_json_path_def split: option.splits content.splits json.splits)
  then show ?thesis by (simp add: load_failed_def)
qed

theorem load_rejected_before_adoption_witness:
  "fst (load_json_path sample_env [''f'' \<mapsto> Complete (JObj [(''columns'', JArr [JInt 1])])]
          ''f'' False sample_app) = False \<and>
   cells (snd (load_json_path sample_env [''f'' \<mapsto> Complete (JObj [(''columns'', JArr [JInt 1])])]
          ''f'' False sample_app)) = [(''2025-01-05'', [(''col-1'', ''meeting'')])] \<and>
   map col_id (columns (snd (load_json_path sample_env
          [''f'' \<mapsto> Complete (JObj [(''columns'', JArr [JInt 1])])] ''f'' False sample_app)))
     = [''col-1'', ''col-2''] \<and>
   range_start (snd (load_json_path sample_env
          [''f'' \<mapsto> Complete (JObj [(''columns'', JArr [JInt 1])])] ''f'' False sample_app)) = 739252 \<and>
   range_end (snd (load_json_path sample_env
          [''f'' \<mapsto> Complete (JObj [(''columns'', JArr [JInt 1])])] ''f'' False sample_app)) = 739313"
proof -
  let ?d = "[(''columns'', JArr [JInt 1])]"
  let ?files = "[''f'' \<mapsto> Complete (JObj ?d)]"
  have "validated_columns sample_env sample_app ?d = []"
    by (simp add: validated_columns_def dict_get_default_def)
  then have "\<exists>d. ?files ''f'' = Some (Complete (JObj d)) \<and> validated_columns sample_env sample_app d = []"
    by simp
  then have "?files ''f'' = None \<or> ?files ''f'' = Some Partial \<or>
           (\<exists>obj. ?files ''f'' = Some (Complete obj) \<and> (\<forall>d. obj \<noteq> JObj d)) \<or>
           (\<exists>d. ?files ''f'' = Some (Complete (JObj d)) \<and> validated_columns sample_env sample_app d = [])"
    by blast
  from load_rejected_before_adoption[where files = ?files and path = "''f''" and E = sample_env
         and self = sample_app and silent = False, OF this]
  show ?thesis by (simp add: sample_app_def)
qed

text \<open>
  Where the code departs from it: the document \<^verbatim>\<open>{"columns": [{"id": "a"}], "cells": {},
  "year": 0, "month": 1}\<close> passes both validation blocks, so the two assignments are made;
  then \<^verbatim>\<open>date(0, 1, 1)\<close> raises, and the load returns \<open>False\<close> on a state whose Day Records and
  Column Definitions are those of the file.
\<close>

theorem load_failure_after_adoption:
  "fst (load_json_path sample_env [''f'' \<mapsto> Complete doc_year_zero] ''f'' True sample_app) = False \<and>
   cells sample_app = [(''2025-01-05'', [(''col-1'', ''meeting'')])] \<and>
   cells (snd (load_json_path sample_env [''f'' \<mapsto> Complete doc_year_zero] ''f'' True sample_app)) = [] \<and>
   map col_id (columns sample_app) = [''col-1'', ''col-2''] \<and>
   map col_id (columns (snd (load_json_path sample_env [''f'' \<mapsto> Complete doc_year_zero]
                               ''f'' True sample_app))) = [''a'']"
  by code_simp

text \<open>
  With the month 12 of the year 9999, \<^verbatim>\<open>range_start\<close> is assigned as well before
  \<^verbatim>\<open>ms + timedelta(days=61)\<close> raises: the window is left with its start after its end.
\<close>

lemma load_failure_breaks_window:
  "load_json_path sample_env [''f'' \<mapsto> Complete doc_last_month] ''f'' True sample_app
     = (False, sample_app\<lparr>columns := [\<lparr>col_id = ''a'', title = ''a'', width = 240\<rparr>], cells := [],
                            range_start := 3652029\<rparr>)"
  by code_simp

section \<open>The autosave tick\<close>

text \<open>
  C7, as the code has it. \<^verbatim>\<open>_write_json\<close> catches the exception of a failing step itself and
  shows a warning dialog, so \<^verbatim>\<open>_autosave_tick\<close> never sees a failure: whenever the dirty
  flag is set and a step of the write fails, the tick shows the dialog and clears the flag.
\<close>

theorem autosave_tick_clears_dirty_on_failure:
  assumes "dirty self" and "fault \<noteq> NoFault"
  shows "\<not> dirty (fst (autosave_tick fault (self, files))) \<and>
         warnings (fst (autosave_tick fault (self, files))) = Suc (warnings self) \<and>
         snd (autosave_tick fault (self, files)) (autosave_path self) = files (autosave_path self)"
proof -
  have "f \<in> set (write_json_steps self (autosave_path self) fault files) \<Longrightarrow>
        f (autosave_path self) = files (autosave_path self)" for f
    using assms(2) by (cases fault) (auto simp: write_json_steps_def Let_def split: if_splits)
  moreover have "write_json_steps self (autosave_path self) fault files \<noteq> []"
    by (simp add: write_json_steps_def Let_def)
  ultimately have "last (write_json_steps self (autosave_path self) fault files) (autosave_path self)
      = files (autosave_path self)"
    using last_in_set by blast
  then show ?thesis using assms
    by (simp add: autosave_tick_def write_json_def write_json_raised_def)
qed

theorem autosave_tick_clears_dirty_on_failure_witness:
  "dirty sample_app \<and>
   \<not> dirty (fst (autosave_tick OpenFails (sample_app, Map.empty))) \<and>
   warnings (fst (autosave_tick OpenFails (sample_app, Map.empty))) = 1 \<and>
   snd (autosave_tick OpenFails (sample_app, Map.empty)) ''notes.json'' = None"
  using autosave_tick_clears_dirty_on_failure[of sample_app OpenFails Map.empty]
  by (simp add: sample_app_def)

text \<open>
  The tick of \<^verbatim>\<open>D-Scheduler/d-scheduler.py\<close>, whose \<^verbatim>\<open>_write_json\<close> catches nothing, keeps the
  flag when the write fails and clears it when the write succeeds.
\<close>

lemma autosave_tick_old_keeps_dirty_on_failure:
  "dirty self \<Longrightarrow> fault = OpenFails \<or> fault = DumpFails \<Longrightarrow>
   dirty (fst (autosave_tick_old now fault (self, files))) \<and>
   warnings (fst (autosave_tick_old now fault (self, files))) = warnings self"
  by (auto simp: autosave_tick_old_def write_json_old_def)

lemma autosave_tick_old_clears_dirty_on_success:
  "dirty self \<Longrightarrow> fault = NoFault \<Longrightarrow>
   \<not> dirty (fst (autosave_tick_old now fault (self, files))) \<and>
   snd (autosave_tick_old now fault (self, files)) (autosave_path self)
     = Some (Complete (document_old now self))"
  by (auto simp: autosave_tick_old_def write_json_old_def write_json_old_steps_def)

section \<open>The write\<close>

text \<open>
  C3. In every state of the file system a call of \<^verbatim>\<open>_write_json\<close> goes through, whatever
  step fails, the destination holds what it held before the call or the complete new
  document. A call in which no step fails, \<^verbatim>\<open>with_suffix\<close> among them (the path has a
  name), goes through a state in which the temporary sibling holds the complete document and
  ends with the destination holding it and the sibling gone.
\<close>

theorem write_json_never_exposes_partial_file:
  "(\<forall>files' \<in> set (write_json_steps self path fault files).
      files' path = files path \<or> files' path = Some (Complete (document self))) \<and>
   (fault = NoFault \<and> path_name path \<noteq> [] \<longrightarrow>
      (write_json_steps self path fault files ! 2) (path @ ''.tmp'') = Some (Complete (document self)) \<and>
      (write_json_steps self path fault files ! 2) path = files path \<and>
      snd (fst (write_json path fault (self, files))) path = Some (Complete (document self)) \<and>
      snd (fst (write_json path fault (self, files))) (path @ ''.tmp'') = None)"
  by (auto simp: write_json_steps_def write_json_def Let_def)

theorem write_json_never_exposes_partial_file_witness:
  "map (\<lambda>files'. files' ''notes.json'')
     (write_json_steps sample_app ''notes.json'' NoFault [''notes.json'' \<mapsto> Complete JNull])
     = [Some (Complete JNull), Some (Complete JNull), Some (Complete JNull),
        Some (Complete (document sample_app))] \<and>
   map (\<lambda>files'. files' ''notes.json.tmp'')
     (write_json_steps sample_app ''notes.json'' NoFault [''notes.json'' \<mapsto> Complete JNull])
     = [None, Some Partial, Some (Complete (document sample_app)), None] \<and>
   snd (fst (write_json ''notes.json'' NoFault (sample_app, [''notes.json'' \<mapsto> Complete JNull])))
     ''notes.json'' = Some (Complete (document sample_app))"
proof -
  have n: "path_name ''notes.json'' = ''notes.json''"
    by (simp add: path_name_def)
  show ?thesis
    using write_json_never_exposes_partial_file[of sample_app "''notes.json''" NoFault
            "[''notes.json'' \<mapsto> Complete JNull]"]
    by (simp add: n write_json_steps_def write_json_def write_json_raised_def Let_def)
qed

text \<open>
  The \<^verbatim>\<open>_write_json\<close> of the two earlier files opens the destination itself: between the
  opening and the end of the dump the destination holds a partial file, and it keeps it
  when the dump fails.
\<close>

lemma write_json_old_exposes_partial_file:
  "(write_json_old_steps now self path DumpFails files ! 1) path = Some Partial \<and>
   snd (fst (write_json_old now path DumpFails (self, files))) path = Some Partial"
  by (simp add: write_json_old_steps_def write_json_old_def)

section \<open>The rows of a window\<close>

text \<open>
  The loop fills \<open>k\<close> rows from row \<open>r\<close> on with the days from \<open>cur\<close> on and raises nothing,
  when the day after the last one is still in the calendar.
\<close>

lemma fill_rows_ok:
  "1 \<le> cur \<Longrightarrow> cur + int k \<le> MAXORD \<Longrightarrow> r + k \<le> length rs \<Longrightarrow>
   fill_rows self rs r cur k =
     (take r rs @ map (\<lambda>i. Some (build_row self (cur + int i))) [0..<k] @ drop (r + k) rs, None)"
proof (induction k arbitrary: rs r cur)
  case 0
  then show ?case by simp
next
  case (Suc k)
  let ?x = "Some (build_row self cur)"
  have da: "date_add cur 1 = Inr (cur + 1)"
    using Suc.prems by (simp add: date_add_def)
  have r: "r < length rs" using Suc.prems by simp
  have ih: "fill_rows self (rs[r := ?x]) (Suc r) (cur + 1) k =
     (take (Suc r) (rs[r := ?x]) @ map (\<lambda>i. Some (build_row self (cur + 1 + int i))) [0..<k]
        @ drop (Suc r + k) (rs[r := ?x]), None)"
    using Suc.prems by (intro Suc.IH) simp_all
  have t: "take (Suc r) (rs[r := ?x]) = take r rs @ [?x]"
    using r by (simp add: take_Suc_conv_app_nth)
  have d: "drop (Suc r + k) (rs[r := ?x]) = drop (r + Suc k) rs"
    by simp
  have m: "map (\<lambda>i. Some (build_row self (cur + int i))) [0..<Suc k] =
           ?x # map (\<lambda>i. Some (build_row self (cur + 1 + int i))) [0..<k]"
    by (simp add: upt_conv_Cons map_Suc_upt[symmetric] add.assoc del: upt_Suc)
  show ?case using da ih t d m by simp
qed

lemma fill_rows_all:
  "1 \<le> cur \<Longrightarrow> cur + int (length rs) \<le> MAXORD \<Longrightarrow>
   fill_rows self rs 0 cur (length rs) =
     (map (\<lambda>i. Some (build_row self (cur + int i))) [0..<length rs], None)"
  using fill_rows_ok[of cur "length rs" 0 rs self] by simp

lemma length_set_row_count_clear:
  "0 \<le> k \<Longrightarrow> length (set_row_count k (clear_table rs)) = nat k"
  by (auto simp: set_row_count_def clear_table_def)

text \<open>A row built from a store without Day Records has an empty text in every column.\<close>

lemma build_row_empty_store:
  "cells self = [] \<Longrightarrow>
   build_row self dt = \<lparr>row_date = dt, row_texts = map (\<lambda>c. (col_id c, [])) (columns self)\<rparr>"
  by (simp add: build_row_def)

text \<open>
  \<^verbatim>\<open>set_view_anchor\<close> on an anchor whose 62nd day from it is not the last day of the calendar.
\<close>

lemma set_view_anchor_result:
  assumes "1 \<le> anchor" and "anchor + 61 < MAXORD"
  shows "set_view_anchor anchor self =
           (self\<lparr>current_anchor_date := anchor, range_start := anchor, range_end := anchor + 61,
                 rows := map (\<lambda>i. Some (build_row self (anchor + int i))) [0..<62],
                 is_building := False, sb_prev_block := signals_blocked self\<rparr>, None)"
proof -
  define s where "s = self\<lparr>current_anchor_date := anchor\<rparr>"
  define rs where "rs = set_row_count 62 (clear_table (rows s))"
  have da: "date_add anchor 61 = Inr (anchor + 61)"
    using assms by (simp add: date_add_def)
  have len: "length rs = 62"
    using length_set_row_count_clear[of 62 "rows s"] by (simp add: rs_def)
  have "fill_rows s rs 0 anchor (length rs) =
          (map (\<lambda>i. Some (build_row s (anchor + int i))) [0..<length rs], None)"
    using assms by (intro fill_rows_all) (simp_all add: len)
  then have fr: "fill_rows s rs 0 anchor 62 =
          (map (\<lambda>i. Some (build_row self (anchor + int i))) [0..<62], None)"
    unfolding len by (simp add: build_row_def s_def)
  show ?thesis
    unfolding set_view_anchor_def da using fr
    by (simp add: s_def rs_def begin_table_update_def end_table_update_def del: upt_Suc)
qed

text \<open>
  C9, as the code has it. From a store without Day Records, \<^verbatim>\<open>set_view_anchor\<close> on an anchor
  whose 62nd day from it is not the last day of the calendar raises nothing and leaves the
  window from the anchor to the day 61 days later, both included: 62 rows, row \<open>i\<close> for the
  day \<open>i\<close> days after the anchor, with an empty text in every column. For the anchor 2025-01-01
  the window ends on 2025-03-03.
\<close>

theorem set_view_anchor_window:
  assumes "1 \<le> anchor" and "anchor + 61 < MAXORD" and "cells self = []"
  shows "snd (set_view_anchor anchor self) = None \<and>
         range_start (fst (set_view_anchor anchor self)) = anchor \<and>
         range_end (fst (set_view_anchor anchor self)) = anchor + 61 \<and>
         rows (fst (set_view_anchor anchor self)) =
           map (\<lambda>i. Some \<lparr>row_date = anchor + int i,
                             row_texts = map (\<lambda>c. (col_id c, [])) (columns self)\<rparr>) [0..<62]"
  using set_view_anchor_result[OF assms(1,2), of self] build_row_empty_store[OF assms(3)]
  by (simp del: upt_Suc)

theorem set_view_anchor_window_witness:
  "date_new 2025 1 1 = Inr 739252 \<and> date_new 2025 3 3 = Inr 739313 \<and>
   snd (set_view_anchor 739252 (sample_app\<lparr>cells := []\<rparr>)) = None \<and>
   range_start (fst (set_view_anchor 739252 (sample_app\<lparr>cells := []\<rparr>))) = 739252 \<and>
   range_end (fst (set_view_anchor 739252 (sample_app\<lparr>cells := []\<rparr>))) = 739313 \<and>
   length (rows (fst (set_view_anchor 739252 (sample_app\<lparr>cells := []\<rparr>)))) = 62 \<and>
   rows (fst (set_view_anchor 739252 (sample_app\<lparr>cells := []\<rparr>))) ! 61
     = Some \<lparr>row_date = 739313, row_texts = [(''col-1'', []), (''col-2'', [])]\<rparr>"
proof -
  have d: "date_new 2025 1 1 = Inr 739252 \<and> date_new 2025 3 3 = Inr 739313"
    by code_simp
  have "(1::int) \<le> 739252" and "(739252::int) + 61 < MAXORD" and "cells (sample_app\<lparr>cells := []\<rparr>) = []"
    by (simp_all add: MAXORD_def)
  from set_view_anchor_window[OF this] d show ?thesis
    by (simp add: sample_app_def del: upt_Suc)
qed

text \<open>
  The day 2025-03-02 is the 61st day of the window of the anchor 2025-01-01, not its last:
  the window ends one day later.
\<close>

theorem set_view_anchor_ends_on_march_third:
  "date_new 2025 1 1 = Inr 739252 \<and> date_new 2025 3 2 = Inr 739312 \<and>
   range_start (fst (set_view_anchor 739252 (sample_app\<lparr>cells := []\<rparr>))) = 739252 \<and>
   range_end (fst (set_view_anchor 739252 (sample_app\<lparr>cells := []\<rparr>))) = 739313 \<and>
   date_key 739313 = ''2025-03-03''"
proof -
  have d: "date_new 2025 1 1 = Inr 739252 \<and> date_new 2025 3 2 = Inr 739312 \<and>
           date_key 739313 = ''2025-03-03''"
    by code_simp
  have "(1::int) \<le> 739252" and "(739252::int) + 61 < MAXORD"
    by (simp_all add: MAXORD_def)
  from set_view_anchor_result[OF this, of "sample_app\<lparr>cells := []\<rparr>"] d show ?thesis
    by simp
qed

section \<open>Scrolling by program\<close>

text \<open>
  C2, the part the code keeps. A call of \<^verbatim>\<open>scroll_to_date\<close> extends nothing and changes
  nothing of the state when the signals of the scroll bar are blocked, or when the handler
  finds no user action within the expiry time and the slider is not held down.
\<close>

theorem scroll_to_date_without_user_action:
  assumes "signals_blocked self \<or> (\<forall>ev evs'. evs = Some ev # evs' \<longrightarrow> \<not> user_driven ev self)"
  shows "scroll_to_date evs dt self = (self, None)"
  using assms
  by (auto simp: on_scroll_extend_if_needed.simps split: list.splits option.splits)

theorem scroll_to_date_without_user_action_witness:
  "range_start (fst (scroll_to_date
       [Some \<lparr>ev_now = 1100, ev_value = 995, ev_minimum = 0, ev_maximum = 1000,
               ev_slider_down = False, ev_top_row = 30\<rparr>]
       739260 (fst (set_view_anchor 739252 sample_app)))) = 739252 \<and>
   range_end (fst (scroll_to_date
       [Some \<lparr>ev_now = 1100, ev_value = 995, ev_minimum = 0, ev_maximum = 1000,
               ev_slider_down = False, ev_top_row = 30\<rparr>]
       739260 (fst (set_view_anchor 739252 sample_app)))) = 739313"
proof -
  let ?ev = "\<lparr>ev_now = 1100, ev_value = 995, ev_minimum = 0, ev_maximum = 1000,
               ev_slider_down = False, ev_top_row = 30\<rparr>"
  let ?s = "fst (set_view_anchor 739252 sample_app)"
  have b: "(1::int) \<le> 739252" "(739252::int) + 61 < MAXORD"
    by (simp_all add: MAXORD_def)
  have s: "last_user_scroll_ms ?s = None \<and> range_start ?s = 739252 \<and> range_end ?s = 739313"
    using set_view_anchor_result[OF b, of sample_app] by (simp add: sample_app_def)
  then have "\<not> user_driven ?ev ?s"
    by (simp add: user_driven_def)
  then have "signals_blocked ?s \<or> (\<forall>ev evs'. [Some ?ev] = Some ev # evs' \<longrightarrow> \<not> user_driven ev ?s)"
    by simp
  from scroll_to_date_without_user_action[OF this, of 739260] s show ?thesis
    by simp
qed

text \<open>
  Where the code departs from it: 100 ms after a user action on the scroll bar (the expiry
  time is 240 ms at 60 Hz), a call of \<^verbatim>\<open>scroll_to_date\<close> that moves the bar to within the
  threshold of its lower end runs \<^verbatim>\<open>_append_days_auto\<close>: the window, which ended on
  2025-03-03, ends 60 days later.
\<close>

theorem scroll_to_date_extends_after_user_action:
  "range_end (fst (set_view_anchor 739252 (on_scroll_action 60 1000 sample_app))) = 739313 \<and>
   range_end (fst (scroll_to_date
       [Some \<lparr>ev_now = 1100, ev_value = 995, ev_minimum = 0, ev_maximum = 1000,
               ev_slider_down = False, ev_top_row = 30\<rparr>]
       739260 (fst (set_view_anchor 739252 (on_scroll_action 60 1000 sample_app))))) = 739373"
  by code_simp

text \<open>
  In \<^verbatim>\<open>D-Scheduler/d-scheduler.py\<close> the handler asks for no user action: the same call extends
  the window from the state \<^verbatim>\<open>set_view_anchor\<close> leaves.
\<close>

lemma scroll_to_date_old_extends:
  "range_end (fst (set_view_anchor_old 739252 sample_app)) = 739313 \<and>
   range_end (fst (scroll_to_date_old
       [Some \<lparr>ev_now = 1100, ev_value = 995, ev_minimum = 0, ev_maximum = 1000,
               ev_slider_down = False, ev_top_row = 30\<rparr>]
       739300 (fst (set_view_anchor_old 739252 sample_app)))) = 739373"
  by code_simp

section \<open>The window under the operations of the earlier variant\<close>

declare scroll_to_date_old.simps [simp del] on_scroll_extend_if_needed_old.simps [simp del]
  prepend_days_old.simps [simp del]

lemma fill_rows_err:
  "fill_rows self rs r cur k = (rs', Some e) \<Longrightarrow> e = OverflowError"
  by (induction k arbitrary: rs r cur) (auto simp: date_add_def split: if_splits)

lemma extended_refl: "extended self (self, None)"
  by (simp add: extended_def widened_def)

lemma append_days_old_extended: "0 \<le> n \<Longrightarrow> extended self (append_days_old n self)"
  by (auto simp: append_days_old_def extended_def widened_def Let_def date_add_def
           dest: fill_rows_err split: prod.splits option.splits if_splits)

lemma scroll_old_extended:
  shows "extended self (scroll_to_date_old evs dt self)"
    and "extended self (on_scroll_extend_if_needed_old ev evs self)"
    and "0 \<le> n \<Longrightarrow> extended self (prepend_days_old top_row evs n self)"
proof (induction evs dt self and ev evs self and top_row evs n self
       rule: scroll_to_date_old_on_scroll_extend_if_needed_old_prepend_days_old.induct)
  case (1 evs dt self)
  show ?case
    by (subst scroll_to_date_old.simps)
       (use 1 in \<open>auto simp: extended_refl split: list.splits option.splits\<close>)
next
  case (2 ev evs self)
  obtain s err where a: "(if ev_maximum ev - ev_value ev < 120 then append_days_old 60 self
                          else (self, None)) = (s, err)"
    by (cases "if ev_maximum ev - ev_value ev < 120 then append_days_old 60 self else (self, None)")
  have ea: "extended self (s, err)"
    using a append_days_old_extended[of 60 self] by (auto simp: extended_refl split: if_splits)
  show ?case
  proof (cases "err = None \<and> ev_value ev < 120")
    case True
    then have "extended s (prepend_days_old (ev_top_row ev) evs 60 s)"
      using 2[of s err] a by simp
    moreover have "on_scroll_extend_if_needed_old ev evs self = prepend_days_old (ev_top_row ev) evs 60 s"
      using a True by (simp add: on_scroll_extend_if_needed_old.simps)
    ultimately show ?thesis
      using ea by (auto simp: extended_def widened_def)
  next
    case False
    then have "on_scroll_extend_if_needed_old ev evs self = (s, err)"
      using a by (auto simp: on_scroll_extend_if_needed_old.simps split: option.splits)
    then show ?thesis using ea by simp
  qed
next
  case (3 top_row evs n self)
  show ?case
  proof (cases "date_add (range_start self) (max 0 top_row)")
    case (Inl e)
    then show ?thesis
      by (subst prepend_days_old.simps) (auto simp: extended_def widened_def date_add_def split: if_splits)
  next
    case (Inr b)
    let ?x = "self\<lparr>rows := replicate (nat n) None @ rows self\<rparr>"
    show ?thesis
    proof (cases "date_add (range_start self) (- n)")
      case (Inl e)
      then show ?thesis using Inr
        by (subst prepend_days_old.simps)
           (auto simp: extended_def widened_def date_add_def Let_def split: if_splits)
    next
      case ba: (Inr ba)
      obtain xa y where f: "fill_rows ?x (rows ?x) 0 ba (nat n) = (xa, y)"
        by (cases "fill_rows ?x (rows ?x) 0 ba (nat n)")
      have le: "ba \<le> range_start self"
        using ba "3.prems" by (auto simp: date_add_def split: if_splits)
      show ?thesis
      proof (cases y)
        case None
        have "extended (?x\<lparr>rows := xa, range_start := ba\<rparr>)
                (scroll_to_date_old evs b (?x\<lparr>rows := xa, range_start := ba\<rparr>))"
          using "3.IH"[of b ?x ba xa y] Inr ba f None by simp
        moreover have "prepend_days_old top_row evs n self =
                         scroll_to_date_old evs b (?x\<lparr>rows := xa, range_start := ba\<rparr>)"
          using Inr ba f None by (subst prepend_days_old.simps) (simp add: Let_def)
        ultimately show ?thesis
          using le by (auto simp: extended_def widened_def)
      next
        case (Some e)
        then have "prepend_days_old top_row evs n self = (?x\<lparr>rows := xa\<rparr>, Some e)"
          using Inr ba f by (subst prepend_days_old.simps) (simp add: Let_def)
        then show ?thesis using fill_rows_err[OF f[unfolded Some]]
          by (simp add: extended_def widened_def)
      qed
    qed
  qed
qed

text \<open>
  \<^verbatim>\<open>rebuild_range\<close> either raises before it touches anything, or sets the window to the
  bounds it is given and then at most extends it.
\<close>

lemma rebuild_range_old_cases:
  "rebuild_range_old top_row evs start en keep self = (self, Some OverflowError) \<or>
   (\<exists>s. cells s = cells self \<and> columns s = columns self \<and> range_start s = start \<and>
        range_end s = en \<and> extended s (rebuild_range_old top_row evs start en keep self))"
proof (cases "if keep \<and> rows self \<noteq> []
              then map_sum id Some (date_add (range_start self) (max 0 top_row)) else Inr None")
  case (Inl e)
  then have "rebuild_range_old top_row evs start en keep self = (self, Some e)"
    by (simp add: rebuild_range_old_def)
  moreover have "e = OverflowError"
    using Inl by (auto simp: date_add_def split: if_splits)
  ultimately show ?thesis by simp
next
  case (Inr a)
  obtain rs err where f: "fill_rows self (set_row_count (en - start + 1) (clear_table (rows self)))
                            0 start (nat (en - start + 1)) = (rs, err)"
    by (cases "fill_rows self (set_row_count (en - start + 1) (clear_table (rows self)))
                 0 start (nat (en - start + 1))")
  let ?s = "self\<lparr>range_start := start, range_end := en, rows := rs\<rparr>"
  have "extended ?s (rebuild_range_old top_row evs start en keep self)"
  proof (cases err)
    case (Some e)
    then have "rebuild_range_old top_row evs start en keep self = (?s, Some e)"
      using Inr f by (simp add: rebuild_range_old_def)
    then show ?thesis using fill_rows_err[OF f[unfolded Some]]
      by (simp add: extended_def widened_def)
  next
    case None
    show ?thesis
    proof (cases a)
      case None
      then have "rebuild_range_old top_row evs start en keep self = (?s, None)"
        using Inr f \<open>err = None\<close> by (simp add: rebuild_range_old_def)
      then show ?thesis by (simp add: extended_refl)
    next
      case (Some dt)
      then have "rebuild_range_old top_row evs start en keep self = scroll_to_date_old evs dt ?s"
        using Inr f \<open>err = None\<close> by (simp add: rebuild_range_old_def)
      then show ?thesis by (simp add: scroll_old_extended(1))
    qed
  qed
  then show ?thesis by (intro disjI2 exI[of _ ?s]) simp
qed

lemma rebuild_all_old_extended: "extended self (rebuild_all_old top_row evs self)"
  using rebuild_range_old_cases[of top_row evs "range_start self" "range_end self" True self]
  by (auto simp: rebuild_all_old_def extended_def widened_def)

lemma load_year_month_window:
  assumes "window_ok self" and "load_year_month silent d self = (True, self')"
  shows "window_ok self'"
proof -
  have "ms \<le> en" if "date_add ms 61 = Inr en" for ms en
    using that by (auto simp: date_add_def split: if_splits)
  then show ?thesis
    using assms
    by (auto simp: load_year_month_def load_failed_def window_ok_def Let_def
             split: option.splits sum.splits if_splits)
qed

text \<open>
  C8, the part the code keeps. From a state whose window has its start at or before its end,
  every operation on the window of \<^verbatim>\<open>D-Scheduler/d-scheduler.py\<close> leaves a state of which this
  holds, also when an exception ends it: \<^verbatim>\<open>set_view_anchor\<close>, \<^verbatim>\<open>rebuild_range\<close> on bounds in
  this order, \<^verbatim>\<open>rebuild_all\<close>, \<^verbatim>\<open>_append_days\<close> and \<^verbatim>\<open>_prepend_days\<close> of a number of days that
  is not negative, the scroll handler and \<^verbatim>\<open>scroll_to_date\<close>. All of them but
  \<^verbatim>\<open>set_view_anchor\<close> and \<^verbatim>\<open>rebuild_range\<close>, the full rebuilds on new bounds, leave a window
  that holds the former one: the start is the same or earlier, the end the same or later. A
  load that returns \<open>True\<close> leaves such a state as well, in this file and in the latest, and
  so does \<^verbatim>\<open>__init__\<close> when none of the paths it tries exists.
\<close>

theorem window_never_shrinks:
  assumes "window_ok self"
  shows "window_ok (fst (set_view_anchor_old anchor self)) \<and>
         (start \<le> en \<longrightarrow> window_ok (fst (rebuild_range_old top_row evs start en keep self))) \<and>
         window_ok (fst (rebuild_all_old top_row evs self)) \<and>
         widened self (fst (rebuild_all_old top_row evs self)) \<and>
         (0 \<le> n \<longrightarrow> window_ok (fst (append_days_old n self)) \<and>
                     widened self (fst (append_days_old n self))) \<and>
         (0 \<le> n \<longrightarrow> window_ok (fst (prepend_days_old top_row evs n self)) \<and>
                     widened self (fst (prepend_days_old top_row evs n self))) \<and>
         window_ok (fst (on_scroll_extend_if_needed_old ev evs self)) \<and>
         widened self (fst (on_scroll_extend_if_needed_old ev evs self)) \<and>
         window_ok (fst (scroll_to_date_old evs dt self)) \<and>
         widened self (fst (scroll_to_date_old evs dt self)) \<and>
         (\<forall>s. load_json_path_old files path silent self = Some (True, s) \<longrightarrow> window_ok s) \<and>
         (fst (load_json_path E files path silent self) \<longrightarrow>
            window_ok (snd (load_json_path E files path silent self))) \<and>
         (files dflt = None \<and> (\<forall>p. sp = Some p \<longrightarrow> files p = None) \<longrightarrow>
            (\<exists>s err. init_old today files sp dflt self0 = Some (s, err) \<and>
                      (err = None \<longrightarrow> window_ok s)))"
proof -
  have w: "window_ok (fst r)" if "extended s r" and "window_ok s" for s r
    using that by (auto simp: extended_def widened_def window_ok_def)
  have rr: "window_ok (fst (rebuild_range_old t es s e k x))" if "s \<le> e" and "window_ok x"
    for t es s e k x
    using rebuild_range_old_cases[of t es s e k x] that
    by (auto simp: extended_def widened_def window_ok_def)
  have sv: "window_ok (fst (set_view_anchor_old anchor self))"
  proof (cases "date_add anchor 61")
    case (Inl e)
    then show ?thesis using assms by (simp add: set_view_anchor_old_def window_ok_def)
  next
    case (Inr e)
    then have "anchor \<le> e" by (auto simp: date_add_def split: if_splits)
    then show ?thesis using Inr assms rr[of anchor e "self\<lparr>current_anchor_date := anchor\<rparr>" 0 "[]" False]
      by (simp add: set_view_anchor_old_def window_ok_def)
  qed
  have lo: "window_ok s" if "load_json_path_old files path silent self = Some (True, s)" for s
  proof -
    have lw: "range_start x \<le> range_end x \<longrightarrow> range_start s \<le> range_end s"
      if "load_year_month silent d x = (True, s)" for d x
      using load_year_month_window[OF _ that] by (simp add: window_ok_def)
    show ?thesis
      using that assms
      by (auto simp: load_json_path_old_def load_failed_def window_ok_def
               split: option.splits content.splits json.splits dest!: lw)
  qed
  have ln: "window_ok (snd (load_json_path E files path silent self))"
    if "fst (load_json_path E files path silent self)"
  proof -
    define s where "s = snd (load_json_path E files path silent self)"
    have s: "load_json_path E files path silent self = (True, s)"
      using that by (simp add: s_def prod_eq_iff)
    then obtain d where f: "files path = Some (Complete (JObj d))"
      by (auto simp: load_json_path_def load_failed_def
               split: option.splits content.splits json.splits)
    have ne: "validated_columns E self d \<noteq> []"
      using s f by (auto simp: load_json_path_def load_failed_def split: if_splits)
    let ?x = "self\<lparr>columns := validated_columns E self d, cells := validated_cells E self d\<rparr>"
    have "load_year_month silent d ?x = (True, s)"
      using s f ne by (simp add: load_json_path_def)
    moreover have "window_ok ?x"
      using assms by (simp add: window_ok_def)
    ultimately have "window_ok s" by (rule load_year_month_window[rotated])
    then show ?thesis using s by simp
  qed
  have ini: "\<exists>s err. init_old today files sp dflt self0 = Some (s, err) \<and> (err = None \<longrightarrow> window_ok s)"
    if nf: "files dflt = None" "\<forall>p. sp = Some p \<longrightarrow> files p = None"
  proof -
    have la: "load_last_autosave_old files sp dflt x = Some x" for x
      using nf by (cases sp) (simp_all add: load_last_autosave_old_def)
    obtain y m d where ymd: "ord2ymd today = (y, m, d)"
      by (cases "ord2ymd today") auto
    show ?thesis
    proof (cases "date_new y m 1")
      case (Inl e)
      then show ?thesis using ymd by (simp add: init_old_def)
    next
      case (Inr ms)
      show ?thesis
      proof (cases "date_add ms 61")
        case (Inl e)
        then show ?thesis using ymd Inr by (simp add: init_old_def)
      next
        case en: (Inr en)
        then have le: "ms \<le> en" by (auto simp: date_add_def split: if_splits)
        let ?x = "self0\<lparr>range_start := ms, range_end := en, current_anchor_date := ms\<rparr>"
        have "window_ok ?x" using le by (simp add: window_ok_def)
        from rr[OF le this, of 0 "[]" False]
        have "window_ok (fst (rebuild_range_old 0 [] ms en False ?x))" .
        moreover have "init_old today files sp dflt self0 = Some (rebuild_range_old 0 [] ms en False ?x)"
          using ymd Inr en la by (simp add: init_old_def)
        ultimately show ?thesis
          by (cases "rebuild_range_old 0 [] ms en False ?x") simp
      qed
    qed
  qed
  note e1 = rebuild_all_old_extended[of self top_row evs]
  note e2 = append_days_old_extended[of n self]
  note e3 = scroll_old_extended(3)[of n self top_row evs]
  note e4 = scroll_old_extended(2)[of self ev evs]
  note e5 = scroll_old_extended(1)[of self evs dt]
  have ops: "window_ok (fst (set_view_anchor_old anchor self)) \<and>
         (start \<le> en \<longrightarrow> window_ok (fst (rebuild_range_old top_row evs start en keep self))) \<and>
         window_ok (fst (rebuild_all_old top_row evs self)) \<and>
         widened self (fst (rebuild_all_old top_row evs self)) \<and>
         (0 \<le> n \<longrightarrow> window_ok (fst (append_days_old n self)) \<and>
                     widened self (fst (append_days_old n self))) \<and>
         (0 \<le> n \<longrightarrow> window_ok (fst (prepend_days_old top_row evs n self)) \<and>
                     widened self (fst (prepend_days_old top_row evs n self))) \<and>
         window_ok (fst (on_scroll_extend_if_needed_old ev evs self)) \<and>
         widened self (fst (on_scroll_extend_if_needed_old ev evs self)) \<and>
         window_ok (fst (scroll_to_date_old evs dt self)) \<and>
         widened self (fst (scroll_to_date_old evs dt self))"
    using sv rr[OF _ assms, of start en top_row evs keep]
      w[OF e1 assms] w[OF e2 assms] w[OF e3 assms] w[OF e4 assms] w[OF e5 assms] e1 e2 e3 e4 e5
    by (simp add: extended_def)
  show ?thesis
    using ops lo ln ini by blast
qed


theorem window_never_shrinks_witness:
  "window_ok sample_app \<and>
   window_ok (fst (set_view_anchor_old 739300 sample_app)) \<and>
   window_ok (fst (rebuild_all_old 0 [] sample_app)) \<and>
   widened sample_app (fst (rebuild_all_old 0 [] sample_app)) \<and>
   window_ok (fst (append_days_old 60 sample_app)) \<and>
   widened sample_app (fst (append_days_old 60 sample_app)) \<and>
   window_ok (fst (prepend_days_old 0 [] 60 sample_app)) \<and>
   widened sample_app (fst (prepend_days_old 0 [] 60 sample_app)) \<and>
   load_json_path_old [''f'' \<mapsto> Complete (JObj [(''year'', JInt 2025), (''month'', JInt 3)])]
       ''f'' True sample_app
     = Some (True, sample_app\<lparr>range_start := 739311, range_end := 739372, dirty := False\<rparr>) \<and>
   window_ok (sample_app\<lparr>range_start := 739311, range_end := 739372, dirty := False\<rparr>) \<and>
   window_ok (snd (load_json_path sample_env [''f'' \<mapsto> Complete doc_invalid_keys] ''f'' True
                     sample_app)) \<and>
   (\<exists>s err. init_old 739267 Map.empty (Some ''notes.json'') ''autosave.json'' sample_app
               = Some (s, err) \<and> range_start s = 739252 \<and> range_end s = 739313)"
proof -
  let ?files = "[''f'' \<mapsto> Complete (JObj [(''year'', JInt 2025), (''month'', JInt 3)])]"
  let ?s = "sample_app\<lparr>range_start := 739311, range_end := 739372, dirty := False\<rparr>"
  have ok: "window_ok sample_app" by (simp add: window_ok_def sample_app_def)
  have lo: "load_json_path_old ?files ''f'' True sample_app = Some (True, ?s)"
    by code_simp
  have ln: "fst (load_json_path sample_env [''f'' \<mapsto> Complete doc_invalid_keys] ''f'' True sample_app)"
    by code_simp
  have nf: "Map.empty ''autosave.json'' = None \<and>
            (\<forall>p. Some ''notes.json'' = Some p \<longrightarrow> Map.empty p = None)"
    by simp
  note a = window_never_shrinks[OF ok, where anchor = 739300 and top_row = 0 and evs = "[]"
      and n = 60 and files = ?files and path = "''f''" and silent = True]
  note b = window_never_shrinks[OF ok, where files = "[''f'' \<mapsto> Complete doc_invalid_keys]"
      and path = "''f''" and silent = True and E = sample_env]
  note c = window_never_shrinks[OF ok, where files = Map.empty and dflt = "''autosave.json''"
      and sp = "Some ''notes.json''" and today = 739267 and ?self0.0 = sample_app]
  have i: "init_old 739267 Map.empty (Some ''notes.json'') ''autosave.json'' sample_app
             = Some (rebuild_range_old 0 [] 739252 739313 False sample_app)"
    by code_simp
  have r: "range_start (fst (rebuild_range_old 0 [] 739252 739313 False sample_app)) = 739252 \<and>
           range_end (fst (rebuild_range_old 0 [] 739252 739313 False sample_app)) = 739313"
    by (simp add: rebuild_range_old_def Let_def split: prod.splits option.splits)
  have "\<exists>s err. init_old 739267 Map.empty (Some ''notes.json'') ''autosave.json'' sample_app
               = Some (s, err) \<and> range_start s = 739252 \<and> range_end s = 739313"
    using c nf i r by (metis fst_conv option.inject)
  moreover have "window_ok ?s" using a lo by blast
  moreover have "window_ok (snd (load_json_path sample_env [''f'' \<mapsto> Complete doc_invalid_keys]
                                   ''f'' True sample_app))"
    using b ln by blast
  ultimately show ?thesis using a ok lo by simp
qed

text \<open>
  Where the code departs from it. A document with the month 12 of the year 9999 passes the
  test on \<^verbatim>\<open>year\<close> and \<^verbatim>\<open>month\<close>; \<^verbatim>\<open>self.range_start\<close> is assigned the first of December 9999,
  then \<^verbatim>\<open>ms + timedelta(days=61)\<close> raises, and the load returns \<open>False\<close> on a window whose
  start lies after its end. This is so in \<^verbatim>\<open>D-Scheduler/d-scheduler.py\<close> and in the latest
  file. When the document is the autosave file \<^verbatim>\<open>__init__\<close> of \<^verbatim>\<open>D-Scheduler/d-scheduler.py\<close>
  finds, the first drawing is that of this window: \<^verbatim>\<open>__init__\<close> ends with a window whose
  start lies after its end and a table that has no row.
\<close>

theorem load_failure_inverts_window:
  "window_ok sample_app \<and>
   load_json_path_old [''f'' \<mapsto> Complete (JObj [(''year'', JInt 9999), (''month'', JInt 12)])]
       ''f'' True sample_app
     = Some (False, sample_app\<lparr>range_start := 3652029\<rparr>) \<and>
   fst (load_json_path sample_env [''f'' \<mapsto> Complete doc_last_month] ''f'' True sample_app)
     = False \<and>
   range_start (snd (load_json_path sample_env [''f'' \<mapsto> Complete doc_last_month] ''f'' True
                       sample_app)) = 3652029 \<and>
   range_end (snd (load_json_path sample_env [''f'' \<mapsto> Complete doc_last_month] ''f'' True
                     sample_app)) = 739313 \<and>
   \<not> window_ok (snd (load_json_path sample_env [''f'' \<mapsto> Complete doc_last_month] ''f'' True
                        sample_app)) \<and>
   init_old 739267
       [''autosave.json'' \<mapsto> Complete (JObj [(''year'', JInt 9999), (''month'', JInt 12)])]
       None ''autosave.json'' sample_app
     = Some (sample_app\<lparr>range_start := 3652029\<rparr>, None) \<and>
   \<not> window_ok (sample_app\<lparr>range_start := 3652029\<rparr>) \<and>
   rows (sample_app\<lparr>range_start := 3652029\<rparr>) = []"
  by code_simp

section \<open>Loading what was written\<close>

lemma cell_text_str: "cell_text E (JStr t) = t"
  by (simp add: cell_text_def py_str_def)

lemma set_update_cases:
  "p \<in> set (AList.update k v al) \<Longrightarrow> p \<in> set al \<or> p = (k, v)"
  by (induction al) (auto split: if_splits)

lemma load_entry_distinct:
  "distinct (map fst acc) \<Longrightarrow> distinct (map fst (load_entry E items acc))"
  by (induction items arbitrary: acc) (auto simp: AList.distinct_update)

text \<open>
  The Day Records the loader builds have each date key once, every key of the shape of a
  date, and each column identifier once in a record.
\<close>

lemma load_cells_shape:
  "distinct (map fst acc) \<Longrightarrow>
   (\<forall>p \<in> set acc. fullmatch_date (fst p) \<and> distinct (map fst (snd p))) \<Longrightarrow>
   distinct (map fst (load_cells E kvs acc)) \<and>
   (\<forall>p \<in> set (load_cells E kvs acc). fullmatch_date (fst p) \<and> distinct (map fst (snd p)))"
proof (induction kvs arbitrary: acc)
  case Nil
  then show ?case by simp
next
  case (Cons kv kvs)
  obtain k v where kv: "kv = (k, v)" by (cases kv)
  show ?case
  proof (cases "fullmatch_date k \<and> (\<exists>items. v = JObj items)")
    case True
    then obtain items where v: "v = JObj items" and fm: "fullmatch_date k" by auto
    let ?acc = "AList.update k (load_entry E items []) acc"
    have d: "distinct (map fst ?acc)"
      using Cons.prems(1) by (simp add: AList.distinct_update)
    have "distinct (map fst (load_entry E items []))"
      by (rule load_entry_distinct) simp
    then have "\<forall>p \<in> set ?acc. fullmatch_date (fst p) \<and> distinct (map fst (snd p))"
      using Cons.prems(2) fm by (auto dest!: set_update_cases)
    from Cons.IH[OF d this] show ?thesis using kv v fm by simp
  next
    case False
    then have "load_cells E (kv # kvs) acc = load_cells E kvs acc"
      using kv by (cases v) auto
    then show ?thesis using Cons.IH[OF Cons.prems] by simp
  qed
qed

lemma validated_cells_shape:
  "distinct (map fst (validated_cells E self d)) \<and>
   (\<forall>p \<in> set (validated_cells E self d). fullmatch_date (fst p) \<and> distinct (map fst (snd p)))"
proof (cases "dict_get_default d ''cells'' (json_of_cells (cells self))")
  case (JObj kvs)
  then show ?thesis
    using load_cells_shape[of "[]" E kvs] by (simp add: validated_cells_def)
qed (simp_all add: validated_cells_def)

text \<open>Loading the \<^verbatim>\<open>cells\<close> object written from such Day Records gives them back.\<close>

lemma load_written_cells:
  assumes "distinct (map fst cs)"
    and "\<forall>p \<in> set cs. fullmatch_date (fst p) \<and> distinct (map fst (snd p))"
  shows "load_cells E (map (\<lambda>(k, entry). (k, json_of_entry entry)) cs) [] = cs"
proof -
  let ?kvs = "map (\<lambda>(k, entry). (k, json_of_entry entry)) cs"
  have keys: "map fst ?kvs = map fst cs"
    by (simp add: case_prod_unfold comp_def)
  have "unique_keys ?kvs"
    using assms keys
    by (auto simp: unique_keys_def list_all_iff json_of_entry_def case_prod_unfold comp_def)
  then have "load_cells E ?kvs [] = map (record_of E) (filter is_record ?kvs)"
    using load_cells_fresh[of ?kvs "[]" E] by simp
  moreover have "filter is_record ?kvs = ?kvs"
    using assms(2) by (auto simp: is_record_def json_of_entry_def filter_id_conv)
  moreover have "map (record_of E) ?kvs = cs"
  proof -
    have "record_of E ((\<lambda>(k, entry). (k, json_of_entry entry)) p) = p" for p
    proof -
      obtain k entry where p: "p = (k, entry)" by (cases p)
      have "map (\<lambda>(cid, t). (cid, cell_text E t)) (map (\<lambda>(cid, t). (cid, JStr t)) entry) = entry"
        by (induction entry) (auto simp: cell_text_str)
      then show ?thesis using p by (simp add: record_of_def json_of_entry_def)
    qed
    then show ?thesis by (simp add: map_idI comp_def)
  qed
  ultimately show ?thesis by simp
qed

lemma load_columns_keeps: "cols \<noteq> [] \<Longrightarrow> load_columns E cs n seen cols \<noteq> []"
  by (induction cs arbitrary: n seen cols) (auto simp: Let_def split: json.splits)

lemma load_written_columns:
  "cols \<noteq> [] \<Longrightarrow> load_columns E (map (\<lambda>c. JObj [(''id'', JStr (col_id c)), (''title'', JStr (title c)),
                            (''width'', JInt (width c))]) cols) 0 [] [] \<noteq> []"
  by (cases cols) (auto simp: Let_def intro!: load_columns_keeps)

text \<open>Loading the document written from a state with a column gives its Day Records back.\<close>

lemma load_document:
  assumes "columns self \<noteq> []"
    and "distinct (map fst (cells self))"
    and "\<forall>p \<in> set (cells self). fullmatch_date (fst p) \<and> distinct (map fst (snd p))"
    and "files path = Some (Complete (document self))"
  shows "fst (load_json_path E files path silent other) \<and>
         cells (snd (load_json_path E files path silent other)) = cells self"
proof -
  let ?d = "[(''columns'', json_of_columns (columns self)), (''cells'', json_of_cells (cells self))]"
  have c: "validated_columns E other ?d \<noteq> []"
    using load_written_columns[OF assms(1)]
    by (simp add: validated_columns_def dict_get_default_def json_of_columns_def)
  have v: "validated_cells E other ?d = cells self"
    using load_written_cells[OF assms(2,3)]
    by (simp add: validated_cells_def dict_get_default_def json_of_cells_def)
  have "load_json_path E files path silent other =
          load_year_month silent ?d (other\<lparr>columns := validated_columns E other ?d, cells := cells self\<rparr>)"
    using assms(4) c v by (simp add: load_json_path_def document_def)
  also have "\<dots> = (True, other\<lparr>columns := validated_columns E other ?d, cells := cells self,
                                  dirty := False\<rparr>)"
    by (simp add: load_year_month_def dict_get_def as_int_def)
  finally show ?thesis by simp
qed

text \<open>
  C1, the part the code keeps. After a load that succeeds, a write to a path \<^verbatim>\<open>path'\<close> in
  which no step raises lets nothing escape and leaves the state as it is, and a load of
  \<^verbatim>\<open>path'\<close> then, into whatever state, succeeds and leaves the Day Records the first load left:
  the same dates in the same order, each with the same entries, so under every key the same
  Day Record. The two loads may differ in what \<^verbatim>\<open>str\<close>, \<^verbatim>\<open>int\<close> and \<^verbatim>\<open>uuid4\<close> give.
\<close>

theorem load_write_load_round_trip:
  assumes "load_json_path E files path silent self = (True, self1)"
    and "\<not> write_json_raised path' fault"
  shows "snd (write_json path' fault (self1, files')) = None \<and>
         fst (fst (write_json path' fault (self1, files'))) = self1 \<and>
         fst (load_json_path E' (snd (fst (write_json path' fault (self1, files')))) path' silent'
                other) \<and>
         cells (snd (load_json_path E' (snd (fst (write_json path' fault (self1, files')))) path'
                       silent' other)) = cells self1 \<and>
         (\<forall>k. map_of (cells (snd (load_json_path E' (snd (fst (write_json path' fault
                                   (self1, files')))) path' silent' other))) k
              = map_of (cells self1) k)"
proof -
  let ?files2 = "snd (fst (write_json path' fault (self1, files')))"
  obtain d where f: "files path = Some (Complete (JObj d))"
    using assms(1)
    by (auto simp: load_json_path_def load_failed_def
             split: option.splits content.splits json.splits)
  have cs: "cells self1 = validated_cells E self d" and cols: "columns self1 \<noteq> []"
    using load_json_path_success[OF assms(1) f] by simp_all
  have nf: "fault = NoFault" and nm: "path_name path' \<noteq> []"
    using assms(2) by (auto simp: write_json_raised_def split: if_splits)
  have w: "snd (write_json path' fault (self1, files')) = None \<and>
           fst (fst (write_json path' fault (self1, files'))) = self1 \<and>
           ?files2 path' = Some (Complete (document self1))"
    using nf nm by (simp add: write_json_def write_json_raised_def write_json_steps_def Let_def)
  have "fst (load_json_path E' ?files2 path' silent' other) \<and>
        cells (snd (load_json_path E' ?files2 path' silent' other)) = cells self1"
    using validated_cells_shape[of E self d] cols w
    by (intro load_document) (simp_all add: cs)
  then show ?thesis using w by simp
qed

theorem load_write_load_round_trip_witness:
  "fst (load_json_path sample_env [''f'' \<mapsto> Complete doc_invalid_keys] ''f'' True sample_app) \<and>
   cells (snd (load_json_path sample_env [''f'' \<mapsto> Complete doc_invalid_keys] ''f'' True sample_app))
     = [(''2025-02-30'', [(''a'', ''y'')])] \<and>
   \<not> write_json_raised ''dir/g.json'' NoFault \<and>
   cells sample_app = [(''2025-01-05'', [(''col-1'', ''meeting'')])] \<and>
   fst (load_json_path sample_env
          (snd (fst (write_json ''dir/g.json'' NoFault
             (snd (load_json_path sample_env [''f'' \<mapsto> Complete doc_invalid_keys] ''f'' True sample_app),
              Map.empty))))
          ''dir/g.json'' True sample_app) \<and>
   cells (snd (load_json_path sample_env
          (snd (fst (write_json ''dir/g.json'' NoFault
             (snd (load_json_path sample_env [''f'' \<mapsto> Complete doc_invalid_keys] ''f'' True sample_app),
              Map.empty))))
          ''dir/g.json'' True sample_app))
     = [(''2025-02-30'', [(''a'', ''y'')])]"
proof -
  let ?s = "sample_app\<lparr>columns := [\<lparr>col_id = ''a'', title = ''a'', width = 240\<rparr>],
                        cells := [(''2025-02-30'', [(''a'', ''y'')])], dirty := False\<rparr>"
  have a: "load_json_path sample_env [''f'' \<mapsto> Complete doc_invalid_keys] ''f'' True sample_app
             = (True, ?s)"
    by code_simp
  have b: "\<not> write_json_raised ''dir/g.json'' NoFault"
    by (simp add: write_json_raised_def path_name_def)
  have c: "cells sample_app = [(''2025-01-05'', [(''col-1'', ''meeting'')])]"
    by (simp add: sample_app_def)
  from load_write_load_round_trip[OF a b, where files' = Map.empty and E' = sample_env
         and silent' = True and other = sample_app]
  have "fst (load_json_path sample_env
               (snd (fst (write_json ''dir/g.json'' NoFault (?s, Map.empty)))) ''dir/g.json'' True
               sample_app)"
    and "cells (snd (load_json_path sample_env
               (snd (fst (write_json ''dir/g.json'' NoFault (?s, Map.empty)))) ''dir/g.json'' True
               sample_app)) = cells ?s"
    by blast+
  then show ?thesis
    using b c unfolding a by simp
qed

text \<open>
  Where the code departs from it. \<^verbatim>\<open>json.load\<close> accepts a document with a lone surrogate in a
  string, such as \<^verbatim>\<open>{"columns": [{"id": "a"}], "cells": {"2025-01-01": {"a": "\ud800"}}}\<close>, and
  so does \<^verbatim>\<open>_load_json_path\<close>; the dump of \<^verbatim>\<open>_write_json\<close> then raises
  \<^verbatim>\<open>UnicodeEncodeError\<close>, whatever the path. What follows a dump that raises is the same for
  every document: the exception is caught and answered by a dialog, the destination is not
  replaced, and the load of a destination that did not exist before returns \<open>False\<close> and
  leaves the Day Records of the state it is called on.
\<close>

theorem write_failure_breaks_round_trip:
  "fst (load_json_path sample_env [''f'' \<mapsto> Complete doc_invalid_keys] ''f'' True sample_app) \<and>
   write_json_raised ''g.json'' DumpFails \<and>
   snd (write_json ''g.json'' DumpFails
          (snd (load_json_path sample_env [''f'' \<mapsto> Complete doc_invalid_keys] ''f'' True sample_app),
           [''f'' \<mapsto> Complete doc_invalid_keys])) = None \<and>
   snd (fst (write_json ''g.json'' DumpFails
          (snd (load_json_path sample_env [''f'' \<mapsto> Complete doc_invalid_keys] ''f'' True sample_app),
           [''f'' \<mapsto> Complete doc_invalid_keys]))) ''g.json'' = None \<and>
   fst (load_json_path sample_env
          (snd (fst (write_json ''g.json'' DumpFails
             (snd (load_json_path sample_env [''f'' \<mapsto> Complete doc_invalid_keys] ''f'' True sample_app),
              [''f'' \<mapsto> Complete doc_invalid_keys]))))
          ''g.json'' True sample_app) = False \<and>
   cells (snd (load_json_path sample_env
          (snd (fst (write_json ''g.json'' DumpFails
             (snd (load_json_path sample_env [''f'' \<mapsto> Complete doc_invalid_keys] ''f'' True sample_app),
              [''f'' \<mapsto> Complete doc_invalid_keys]))))
          ''g.json'' True sample_app))
     = [(''2025-01-05'', [(''col-1'', ''meeting'')])]"
proof -
  let ?s = "sample_app\<lparr>columns := [\<lparr>col_id = ''a'', title = ''a'', width = 240\<rparr>],
                        cells := [(''2025-02-30'', [(''a'', ''y'')])], dirty := False\<rparr>"
  have a: "load_json_path sample_env [''f'' \<mapsto> Complete doc_invalid_keys] ''f'' True sample_app
             = (True, ?s)"
    by code_simp
  have n: "path_name ''g.json'' = ''g.json''"
    by (simp add: path_name_def)
  show ?thesis
    unfolding a
    by (simp add: n write_json_def write_json_raised_def write_json_steps_def Let_def
                  load_json_path_def load_failed_def sample_app_def)
qed

section \<open>The window under the operations of the latest variant\<close>

declare scroll_to_date.simps [simp del] on_scroll_extend_if_needed.simps [simp del]
  append_days_auto.simps [simp del] prepend_days_auto.simps [simp del] rebuild_range.simps [simp del]

text \<open>
  The same holds of \<^verbatim>\<open>D-Scheduler_Code/d-scheduler.py\<close>, where the handler extends by
  \<^verbatim>\<open>expand_each\<close> days, a setting between 7 and 120: \<^verbatim>\<open>scroll_to_date\<close>, the handler,
  \<^verbatim>\<open>_append_days_auto\<close> and \<^verbatim>\<open>_prepend_days_auto\<close> at most extend the window, and
  \<^verbatim>\<open>rebuild_range\<close> either raises before it touches anything or sets the window to the bounds
  it is given and then at most extends it.
\<close>

lemma scroll_extended:
  shows "0 \<le> expand_each self \<Longrightarrow>
         extended self (scroll_to_date evs dt self) \<and>
         expand_each (fst (scroll_to_date evs dt self)) = expand_each self"
    and "0 \<le> expand_each self \<Longrightarrow>
         extended self (on_scroll_extend_if_needed ev evs self) \<and>
         expand_each (fst (on_scroll_extend_if_needed ev evs self)) = expand_each self"
    and "0 \<le> n \<Longrightarrow> 0 \<le> expand_each self \<Longrightarrow>
         extended self (append_days_auto top_row evs n self) \<and>
         expand_each (fst (append_days_auto top_row evs n self)) = expand_each self"
    and "0 \<le> n \<Longrightarrow> 0 \<le> expand_each self \<Longrightarrow>
         extended self (prepend_days_auto top_row evs n self) \<and>
         expand_each (fst (prepend_days_auto top_row evs n self)) = expand_each self"
    and "0 \<le> expand_each self \<Longrightarrow>
         rebuild_range top_row evs start en keep self = (self, Some OverflowError) \<or>
         (\<exists>s. cells s = cells self \<and> columns s = columns self \<and> range_start s = start \<and>
              range_end s = en \<and> extended s (rebuild_range top_row evs start en keep self) \<and>
              expand_each (fst (rebuild_range top_row evs start en keep self)) = expand_each self)"
proof (induction evs dt self and ev evs self and top_row evs n self and top_row evs n self
         and top_row evs start en keep self
       rule: scroll_to_date_on_scroll_extend_if_needed_append_days_auto_prepend_days_auto_rebuild_range.induct)
  case (1 evs dt self)
  show ?case
    by (subst (1 2) scroll_to_date.simps)
       (use 1 in \<open>auto simp: extended_refl split: list.splits option.splits\<close>)
next
  case (2 ev evs self)
  show ?case
    by (subst (1 2) on_scroll_extend_if_needed.simps)
       (use 2 in \<open>auto simp: extended_refl\<close>)
next
  case (3 top_row evs n self)
  show ?case
  proof (cases "date_add (range_end self) n")
    case (Inl e)
    then have "append_days_auto top_row evs n self = (self, Some OverflowError)"
      by (subst append_days_auto.simps) (auto simp: date_add_def split: if_splits)
    then show ?thesis by (simp add: extended_def widened_def)
  next
    case (Inr b)
    let ?x = "self\<lparr>signals_blocked := True\<rparr>"
    obtain s' err where r: "rebuild_range top_row evs (range_start self) b True ?x = (s', err)"
      by (cases "rebuild_range top_row evs (range_start self) b True ?x")
    have eq: "append_days_auto top_row evs n self = (s'\<lparr>signals_blocked := signals_blocked self\<rparr>, err)"
      using Inr r by (subst append_days_auto.simps) simp
    have le: "range_end self \<le> b"
      using Inr "3.prems"(1) by (auto simp: date_add_def split: if_splits)
    have "extended self (s', err) \<and> expand_each s' = expand_each self"
      using "3.IH"[OF Inr] "3.prems"(2) r le by (auto simp: extended_def widened_def)
    then show ?thesis using eq by (simp add: extended_def widened_def)
  qed
next
  case (4 top_row evs n self)
  show ?case
  proof (cases "date_add (range_start self) (- n)")
    case (Inl e)
    then have "prepend_days_auto top_row evs n self = (self, Some OverflowError)"
      by (subst prepend_days_auto.simps) (auto simp: date_add_def split: if_splits)
    then show ?thesis by (simp add: extended_def widened_def)
  next
    case (Inr b)
    let ?x = "self\<lparr>signals_blocked := True\<rparr>"
    obtain s' err where r: "rebuild_range top_row evs b (range_end self) True ?x = (s', err)"
      by (cases "rebuild_range top_row evs b (range_end self) True ?x")
    have eq: "prepend_days_auto top_row evs n self = (s'\<lparr>signals_blocked := signals_blocked self\<rparr>, err)"
      using Inr r by (subst prepend_days_auto.simps) simp
    have le: "b \<le> range_start self"
      using Inr "4.prems"(1) by (auto simp: date_add_def split: if_splits)
    have "extended self (s', err) \<and> expand_each s' = expand_each self"
      using "4.IH"[OF Inr] "4.prems"(2) r le by (auto simp: extended_def widened_def)
    then show ?thesis using eq by (simp add: extended_def widened_def)
  qed
next
  case (5 top_row evs start en keep self)
  show ?case
  proof (cases "if keep \<and> rows self \<noteq> []
                then map_sum id Some (date_add (range_start self) (max 0 top_row)) else Inr None")
    case (Inl e)
    then have "rebuild_range top_row evs start en keep self = (self, Some e)"
      by (subst rebuild_range.simps) simp
    moreover have "e = OverflowError"
      using Inl by (auto simp: date_add_def split: if_splits)
    ultimately show ?thesis by simp
  next
    case (Inr a)
    obtain rs err where f: "fill_rows self (set_row_count (en - start + 1) (clear_table (rows self)))
                              0 start (nat (en - start + 1)) = (rs, err)"
      by (cases "fill_rows self (set_row_count (en - start + 1) (clear_table (rows self)))
                   0 start (nat (en - start + 1))")
    let ?s = "end_table_update
                ((begin_table_update self)\<lparr>range_start := start, range_end := en, rows := rs\<rparr>)"
    have s: "cells ?s = cells self \<and> columns ?s = columns self \<and> range_start ?s = start \<and>
             range_end ?s = en \<and> expand_each ?s = expand_each self"
      by (simp add: end_table_update_def begin_table_update_def)
    have "extended ?s (rebuild_range top_row evs start en keep self) \<and>
          expand_each (fst (rebuild_range top_row evs start en keep self)) = expand_each self"
    proof (cases err)
      case (Some e)
      then have "rebuild_range top_row evs start en keep self = (?s, Some e)"
        using Inr f by (subst rebuild_range.simps) simp
      then show ?thesis using fill_rows_err[OF f[unfolded Some]] s
        by (simp add: extended_def widened_def)
    next
      case None
      show ?thesis
      proof (cases a)
        case None
        then have "rebuild_range top_row evs start en keep self = (?s, None)"
          using Inr f \<open>err = None\<close> by (subst rebuild_range.simps) simp
        then show ?thesis using s by (simp add: extended_refl)
      next
        case (Some dt)
        then have "rebuild_range top_row evs start en keep self = scroll_to_date evs dt ?s"
          using Inr f \<open>err = None\<close> by (subst rebuild_range.simps) simp
        moreover have "extended ?s (scroll_to_date evs dt ?s) \<and>
                       expand_each (fst (scroll_to_date evs dt ?s)) = expand_each ?s"
          using "5.IH"[OF Inr f[symmetric] refl \<open>err = None\<close> Some] "5.prems" s by simp
        ultimately show ?thesis using s by simp
      qed
    qed
    then show ?thesis using s by (intro disjI2 exI[of _ ?s]) simp
  qed
qed

text \<open>
  \<^verbatim>\<open>_jump_today\<close> of the latest variant, when no user action lies within the expiry time and
  the slider is not held down: the window is the one \<^verbatim>\<open>set_view_anchor\<close> leaves.
\<close>

lemma jump_today_window:
  assumes "1 \<le> t" and "t + 61 < MAXORD" and "last_user_scroll_ms self = None"
    and "\<forall>ev \<in> set evs. case ev of None \<Rightarrow> True | Some e \<Rightarrow> \<not> ev_slider_down e"
  shows "range_start (fst (jump_today evs t self)) = t \<and>
         range_end (fst (jump_today evs t self)) = t + 61 \<and>
         snd (jump_today evs t self) = None"
proof -
  let ?s = "self\<lparr>current_anchor_date := t, range_start := t, range_end := t + 61,
                 rows := map (\<lambda>i. Some (build_row self (t + int i))) [0..<62],
                 is_building := False, sb_prev_block := signals_blocked self\<rparr>"
  have a: "set_view_anchor t self = (?s, None)"
    by (rule set_view_anchor_result[OF assms(1,2)])
  have "scroll_to_date evs t ?s = (?s, None)"
    using assms(3,4)
    by (subst scroll_to_date.simps)
       (auto simp: on_scroll_extend_if_needed.simps user_driven_def split: list.splits option.splits)
  then show ?thesis using a by (simp add: jump_today_def del: upt_Suc)
qed

section \<open>Deleting a column\<close>

text \<open>
  Rows whose identifiers are not empty and differ from one another keep them in
  \<^verbatim>\<open>_on_apply\<close>: no identifier is drawn or extended.
\<close>

lemma on_apply_columns_ids:
  assumes "\<forall>r \<in> set rs. row_id r \<noteq> [] \<and> row_id r \<notin> set seen"
    and "distinct (map row_id rs)"
  shows "map col_id (on_apply_columns E rs n seen) = map row_id rs"
  using assms
proof (induction rs arbitrary: n seen)
  case Nil
  then show ?case by simp
next
  case (Cons r rs)
  have "row_id x \<noteq> row_id r" if "x \<in> set rs" for x
  proof
    assume "row_id x = row_id r"
    then have "row_id r \<in> row_id ` set rs" using that by (metis imageI)
    then show False using Cons.prems(2) by simp
  qed
  then have "\<forall>x \<in> set rs. row_id x \<noteq> [] \<and> row_id x \<notin> set (row_id r # seen)"
    using Cons.prems(1) by simp
  moreover have "distinct (map row_id rs)"
    using Cons.prems by simp
  ultimately have "map col_id (on_apply_columns E rs n (row_id r # seen)) = map row_id rs"
    by (rule Cons.IH)
  then show ?case using Cons.prems by (simp add: Let_def)
qed

lemma do_del_ids:
  "map row_id (do_del i (map append_column_row cols))
     = take i (map col_id cols) @ drop (Suc i) (map col_id cols)"
  by (simp add: do_del_def take_map drop_map append_column_row_def comp_def)

lemma rebuild_all_frame:
  assumes "0 \<le> expand_each self"
  shows "cells (fst (rebuild_all top_row evs self)) = cells self \<and>
         columns (fst (rebuild_all top_row evs self)) = columns self \<and>
         (snd (rebuild_all top_row evs self) = None \<or>
          snd (rebuild_all top_row evs self) = Some OverflowError)"
  using scroll_extended(5)[OF assms, where top_row = top_row and evs = evs
          and start = "range_start self" and en = "range_end self" and keep = True]
  by (auto simp: rebuild_all_def extended_def)

text \<open>
  C6, as the code has it. In \<^verbatim>\<open>D-Scheduler_Code/d-scheduler.py\<close> the deletion of a column in
  the settings dialog, opened on columns whose identifiers are not empty and differ from one
  another, takes its definition out of the Column Definitions and leaves the Day Records as
  they are: every entry of every Day Record is kept, those of the deleted column as well.
  Up to the end of \<^verbatim>\<open>rebuild_all\<close> the only exception that can escape is its
  \<^verbatim>\<open>OverflowError\<close> at the ends of the calendar, after the deletion is done. (\<open>expand\<close> is the
  value of a spin box whose range is 7 to 120.)
\<close>

theorem delete_column_keeps_day_records:
  assumes "distinct (map col_id cols)" and "\<forall>c \<in> set cols. col_id c \<noteq> []" and "0 \<le> expand"
  shows "cells (fst (delete_column E top_row evs i cols expand self)) = cells self \<and>
         map col_id (columns (fst (delete_column E top_row evs i cols expand self)))
           = take i (map col_id cols) @ drop (Suc i) (map col_id cols) \<and>
         (snd (delete_column E top_row evs i cols expand self) = None \<or>
          snd (delete_column E top_row evs i cols expand self) = Some OverflowError)"
proof -
  let ?rs = "do_del i (map append_column_row cols)"
  let ?cols = "on_apply_columns E ?rs 0 []"
  let ?s = "self\<lparr>columns := ?cols, expand_each := expand\<rparr>"
  have ids: "map row_id ?rs = take i (map col_id cols) @ drop (Suc i) (map col_id cols)"
    by (rule do_del_ids)
  have "set (map row_id ?rs) \<subseteq> set (map col_id cols)"
    unfolding ids using set_take_subset[of i "map col_id cols"] set_drop_subset[of "Suc i" "map col_id cols"]
    by auto
  then have ne: "\<forall>r \<in> set ?rs. row_id r \<noteq> [] \<and> row_id r \<notin> set []"
    using assms(2) by auto
  have "distinct (take i (map col_id cols) @ drop (Suc i) (map col_id cols))"
    using assms(1) set_take_disj_set_drop_if_distinct[of "map col_id cols" i "Suc i"]
    by (simp add: distinct_take distinct_drop)
  then have di: "distinct (map row_id ?rs)"
    unfolding ids .
  have c: "map col_id ?cols = take i (map col_id cols) @ drop (Suc i) (map col_id cols)"
    using on_apply_columns_ids[OF ne di] ids by simp
  have "0 \<le> expand_each ?s" using assms(3) by simp
  from rebuild_all_frame[OF this, of top_row evs]
  show ?thesis using c by (simp add: delete_column_def on_applied_def)
qed

theorem delete_column_keeps_day_records_witness:
  "map col_id (columns (fst (delete_column sample_env 0 [] 1 (columns sample_app) 60
      (sample_app\<lparr>cells := [(''2025-01-05'', [(''col-1'', ''meeting''), (''col-2'', ''note'')]),
                            (''2025-01-06'', [(''col-2'', ''x'')])]\<rparr>)))) = [''col-1''] \<and>
   cells (fst (delete_column sample_env 0 [] 1 (columns sample_app) 60
      (sample_app\<lparr>cells := [(''2025-01-05'', [(''col-1'', ''meeting''), (''col-2'', ''note'')]),
                            (''2025-01-06'', [(''col-2'', ''x'')])]\<rparr>)))
     = [(''2025-01-05'', [(''col-1'', ''meeting''), (''col-2'', ''note'')]),
        (''2025-01-06'', [(''col-2'', ''x'')])]"
proof -
  have a: "distinct (map col_id (columns sample_app))"
    and b: "\<forall>c \<in> set (columns sample_app). col_id c \<noteq> []"
    and c: "(0::int) \<le> 60"
    by (simp_all add: sample_app_def)
  from delete_column_keeps_day_records[OF a b c, of sample_env 0 "[]" 1]
  show ?thesis by (simp add: sample_app_def)
qed

text \<open>
  Where the code departs from the cascade: the state holds the Day Record
  \<^verbatim>\<open>"2025-01-05": {"col-1": "meeting"}\<close> and the columns \<^verbatim>\<open>col-1\<close> and \<^verbatim>\<open>col-2\<close>; after the deletion
  of \<^verbatim>\<open>col-1\<close> the only column is \<^verbatim>\<open>col-2\<close>, and the Day Record still has its entry for
  \<^verbatim>\<open>col-1\<close>.
\<close>

theorem delete_column_leaves_entry:
  "map col_id (columns sample_app) = [''col-1'', ''col-2''] \<and>
   cells sample_app = [(''2025-01-05'', [(''col-1'', ''meeting'')])] \<and>
   map col_id (columns (fst (delete_column sample_env 0 [] 0 (columns sample_app) 60 sample_app)))
     = [''col-2''] \<and>
   cells (fst (delete_column sample_env 0 [] 0 (columns sample_app) 60 sample_app))
     = [(''2025-01-05'', [(''col-1'', ''meeting'')])] \<and>
   snd (delete_column sample_env 0 [] 0 (columns sample_app) 60 sample_app) = None"
  by code_simp

subsection \<open>The earlier variant\<close>

text \<open>
  \<^verbatim>\<open>_remove_selected_col\<close> of \<^verbatim>\<open>D-Scheduler/d-scheduler.py\<close> and of the earliest file does
  cascade. When every Day Record is an object, each keeps its key, its place and, in their
  order, its entries for the other columns, and has no entry for the column any more; the
  Column Definitions are the former ones without the one at \<open>r\<close>; nothing is raised. When no
  Day Record has an entry for the column, the Day Records are what they were.
\<close>

lemma delete_entry_filter:
  "(if cid \<in> fst ` set entry then AList.delete cid entry else entry)
     = filter (\<lambda>(c, t). c \<noteq> cid) entry"
proof -
  have "AList.delete cid entry = filter (\<lambda>(c, t). c \<noteq> cid) entry"
    by (simp add: AList.delete_eq case_prod_unfold eq_commute)
  moreover have "cid \<notin> fst ` set entry \<Longrightarrow> filter (\<lambda>(c, t). c \<noteq> cid) entry = entry"
    by (induction entry) auto
  ultimately show ?thesis by simp
qed

lemma cascade_objects:
  "cascade cid (map (\<lambda>(k, d). (k, JObj d)) recs)
     = (map (\<lambda>(k, d). (k, JObj (filter (\<lambda>(c, t). c \<noteq> cid) d))) recs, None)"
  by (induction recs) (auto simp: delete_from_record_def delete_entry_filter)

lemma remove_selected_col_cascade:
  assumes "0 \<le> r" and "nat r < length cols"
  shows "remove_selected_col r (cols, JObj (map (\<lambda>(k, d). (k, JObj d)) recs))
           = ((take (nat r) cols @ drop (Suc (nat r)) cols,
               JObj (map (\<lambda>(k, d). (k, JObj (filter (\<lambda>(c, t). c \<noteq> col_id (cols ! nat r)) d))) recs)),
              None)"
  using assms by (simp add: remove_selected_col_def cascade_objects)

lemma remove_selected_col_no_reference:
  assumes "0 \<le> r" and "nat r < length cols"
    and "\<forall>(k, d) \<in> set recs. col_id (cols ! nat r) \<notin> fst ` set d"
  shows "remove_selected_col r (cols, JObj (map (\<lambda>(k, d). (k, JObj d)) recs))
           = ((take (nat r) cols @ drop (Suc (nat r)) cols, JObj (map (\<lambda>(k, d). (k, JObj d)) recs)),
              None)"
proof -
  have "filter (\<lambda>(c, t). c \<noteq> col_id (cols ! nat r)) d = d" if "(k, d) \<in> set recs" for k d
  proof -
    have "col_id (cols ! nat r) \<notin> fst ` set d" using assms(3) that by auto
    then show ?thesis by (induction d) auto
  qed
  then have "map (\<lambda>(k, d). (k, JObj (filter (\<lambda>(c, t). c \<noteq> col_id (cols ! nat r)) d))) recs
               = map (\<lambda>(k, d). (k, JObj d)) recs"
    by (intro map_cong) auto
  then show ?thesis using remove_selected_col_cascade[OF assms(1,2), of recs] by simp
qed

text \<open>Without a selection (\<^verbatim>\<open>currentRow()\<close> is negative) nothing happens.\<close>

lemma remove_selected_col_no_selection:
  "r < 0 \<Longrightarrow> remove_selected_col r store = (store, None)"
  by (simp add: remove_selected_col_def split: prod.splits)

text \<open>
  The loader of these files adopts \<^verbatim>\<open>cells\<close> as the document has it. After the load of
  \<^verbatim>\<open>{"cells": {"2025-01-05": {"col-1": "meeting"}, "2025-01-06": null}}\<close> the deletion of
  \<^verbatim>\<open>col-1\<close> raises \<^verbatim>\<open>TypeError\<close> at the second Day Record: the first has lost its entry, and
  the column is still there.
\<close>

lemma remove_selected_col_type_error:
  "remove_selected_col 0
     (columns sample_app,
      JObj [(''2025-01-05'', JObj [(''col-1'', JStr ''meeting'')]), (''2025-01-06'', JNull)])
   = ((columns sample_app, JObj [(''2025-01-05'', JObj []), (''2025-01-06'', JNull)]),
      Some TypeError)"
  by (simp add: remove_selected_col_def delete_from_record_def sample_app_def)


end
